theory Spec2Isabelle
  imports Main "HOL-Library.AList"
begin

section \<open>Session identifiers: the counter and its decimal rendering\<close>

text \<open>
  \<^verbatim>\<open>CombatManager.createCombat\<close> names a session
  \<^verbatim>\<open>(this.managedSoFar++).toString()\<close>. The counter is a JavaScript number, an
  IEEE double. Starting at 0, \<^verbatim>\<open>++\<close> adds one exactly as long as the value is below
  \<open>2^53\<close>; at \<open>2^53\<close> the sum \<open>2^53 + 1\<close> is not representable and rounds back to
  \<open>2^53\<close>, so from there on \<^verbatim>\<open>++\<close> leaves the counter as it is. The counter is
  therefore a natural number that never exceeds \<open>2^53\<close>, and \<^verbatim>\<open>toString\<close> on such
  a number is its decimal numeral without sign or leading zero.
\<close>

definition counter_limit :: nat where
  "counter_limit = 2 ^ 53"

definition increment :: "nat \<Rightarrow> nat" where
  "increment n = (if n < counter_limit then n + 1 else n)"

definition digit_char :: "nat \<Rightarrow> char" where
  "digit_char d = ''0123456789'' ! d"

fun toString :: "nat \<Rightarrow> string" where
  "toString n =
     (if n < 10 then [digit_char n]
      else toString (n div 10) @ [digit_char (n mod 10)])"

declare toString.simps [simp del]

section \<open>Arrays: \<^verbatim>\<open>indexOf\<close>, \<^verbatim>\<open>splice\<close>, \<^verbatim>\<open>push\<close>, \<^verbatim>\<open>for ... in\<close>\<close>

text \<open>\<^verbatim>\<open>Array.prototype.indexOf\<close>: the first index holding the value, or \<open>-1\<close>.\<close>

fun indexOf :: "'a list \<Rightarrow> 'a \<Rightarrow> int" where
  "indexOf [] x = - 1"
| "indexOf (y # ys) x =
     (if y = x then 0
      else (let i = indexOf ys x in if i = - 1 then - 1 else i + 1))"

text \<open>\<^verbatim>\<open>xs.splice(index, 1)\<close> for an index in range: the element there is dropped.\<close>

definition splice1 :: "nat \<Rightarrow> 'a list \<Rightarrow> 'a list" where
  "splice1 index xs = take index xs @ drop (Suc index) xs"

text \<open>
  \<^verbatim>\<open>for (const k in xs)\<close> over an array enumerates its property names, that is the
  indices \<open>0 .. length - 1\<close> rendered as strings, not the elements.
\<close>

definition for_in_keys :: "'a list \<Rightarrow> string list" where
  "for_in_keys xs = map toString [0 ..< length xs]"

section \<open>The combat session object\<close>

type_synonym addr = nat
type_synonym socket = nat

text \<open>
  The two closures built while a session is created, as the values they capture.
  \<^verbatim>\<open>onDeleted\<close> (the arrow function of \<^verbatim>\<open>LobbyService.createCombat\<close>) captures
  the array \<^verbatim>\<open>combats\<close> (by reference: its address in the store below) and the
  binding \<^verbatim>\<open>combatId\<close>; \<^verbatim>\<open>removeSelf\<close> (of \<^verbatim>\<open>CombatManager.createCombat\<close>)
  captures \<^verbatim>\<open>combat_id\<close> and \<^verbatim>\<open>onDeleted\<close>.
\<close>

record OnDeleted =
  od_combats :: addr
  od_combatId :: string

record RemoveSelf =
  rs_combat_id :: string
  rs_onDeleted :: OnDeleted

datatype status = Pending | Active | Finished

text \<open>
  Modelled from the spec: the class \<^verbatim>\<open>CombatConnection\<close> (imported from
  \<^verbatim>\<open>./CombatConnection\<close>) is missing from the sources. The record keeps the five
  constructor arguments that \<^verbatim>\<open>CombatManager.createCombat\<close> passes, and the state the
  specification gives a session: a status in Pending, Active, Finished; a round counter
  starting at 0; and the live connection of each attached player, at most one per
  player.
\<close>

record 'p CombatConnection =
  combatNickname :: string
  cc_preset :: 'p
  cc_removeSelf :: RemoveSelf
  cc_gm_id :: string
  cc_players :: "string list"
  cc_status :: status
  cc_roundCount :: nat
  cc_connections :: "(string \<times> socket) list"

text \<open>
  Modelled from the spec: the constructor of the missing \<^verbatim>\<open>CombatConnection\<close>. A new
  session is pending, at round 0, with no connection attached.
\<close>

definition new_CombatConnection ::
  "string \<Rightarrow> 'p \<Rightarrow> RemoveSelf \<Rightarrow> string \<Rightarrow> string list \<Rightarrow> 'p CombatConnection" where
  "new_CombatConnection nickname preset removeSelf gm_id players =
     \<lparr>combatNickname = nickname, cc_preset = preset, cc_removeSelf = removeSelf,
      cc_gm_id = gm_id, cc_players = players, cc_status = Pending, cc_roundCount = 0,
      cc_connections = []\<rparr>"

text \<open>
  Modelled from the spec: \<^verbatim>\<open>isActive\<close> of the missing \<^verbatim>\<open>CombatConnection\<close>; a
  session is active between its first round and its end.
\<close>

definition isActive :: "'p CombatConnection \<Rightarrow> bool" where
  "isActive c = (cc_status c = Active)"

text \<open>
  Modelled from the spec: \<^verbatim>\<open>getRoundCount\<close> of the missing \<^verbatim>\<open>CombatConnection\<close>,
  the read-only round counter.
\<close>

definition getRoundCount :: "'p CombatConnection \<Rightarrow> nat" where
  "getRoundCount c = cc_roundCount c"

text \<open>
  Modelled from the spec: \<^verbatim>\<open>isPlayerInCombat\<close> of the missing
  \<^verbatim>\<open>CombatConnection\<close>; it tells whether the player has an attached connection, not
  whether the player is on the roster.
\<close>

definition isPlayerInCombat :: "'p CombatConnection \<Rightarrow> string \<Rightarrow> bool" where
  "isPlayerInCombat c playerId = (map_of (cc_connections c) playerId \<noteq> None)"

text \<open>
  Modelled from the spec: \<^verbatim>\<open>handlePlayer\<close> of the missing \<^verbatim>\<open>CombatConnection\<close>; it
  records the connection as the player's live channel.
\<close>

definition handlePlayer :: "'p CombatConnection \<Rightarrow> string \<Rightarrow> socket \<Rightarrow> 'p CombatConnection" where
  "handlePlayer c playerId sock =
     c\<lparr>cc_connections := AList.update playerId sock (cc_connections c)\<rparr>"

text \<open>
  Modelled from the spec: \<^verbatim>\<open>CombatManager.getPlayersInCombat\<close>, which
  \<^verbatim>\<open>LobbyService.getLobbyInfo\<close> calls but which is not among the methods of
  \<^verbatim>\<open>CombatManager\<close> in the sources; it gives the session's connected players.
\<close>

definition getPlayersInCombat :: "'p CombatConnection \<Rightarrow> string list" where
  "getPlayersInCombat c = map fst (cc_connections c)"

section \<open>CombatManager: the session registry\<close>

record 'p CombatManager =
  combats :: "string \<rightharpoonup> 'p CombatConnection"
  managedSoFar :: nat

definition new_CombatManager :: "'p CombatManager" where
  "new_CombatManager = \<lparr>combats = Map.empty, managedSoFar = 0\<rparr>"

definition CombatManager_get :: "'p CombatManager \<Rightarrow> string \<Rightarrow> 'p CombatConnection option" where
  "CombatManager_get m combat_id = combats m combat_id"

text \<open>
  \<^verbatim>\<open>createCombat\<close>. The caller's hook \<^verbatim>\<open>onDeleted\<close> refers to the caller's binding
  \<^verbatim>\<open>const combatId = CombatManager.createCombat(...)\<close>, which holds the returned
  identifier by the time the hook can run; the hook is therefore passed as a function of
  that identifier.
\<close>

definition CombatManager_createCombat ::
  "string \<Rightarrow> 'p \<Rightarrow> string \<Rightarrow> string list \<Rightarrow> (string \<Rightarrow> OnDeleted) \<Rightarrow> 'p CombatManager
     \<Rightarrow> string \<times> 'p CombatManager" where
  "CombatManager_createCombat nickname preset gm_id players onDeleted m =
     (let combat_id = toString (managedSoFar m);
          m1 = m\<lparr>managedSoFar := increment (managedSoFar m)\<rparr>;
          removeSelf = \<lparr>rs_combat_id = combat_id, rs_onDeleted = onDeleted combat_id\<rparr>
      in (combat_id,
          m1\<lparr>combats := (combats m1)(combat_id \<mapsto>
                new_CombatConnection nickname preset removeSelf gm_id players)\<rparr>))"

text \<open>\<^verbatim>\<open>this.combats.delete(combat_id)\<close>, the first statement of \<^verbatim>\<open>removeSelf\<close>.\<close>

definition CombatManager_delete :: "string \<Rightarrow> 'p CombatManager \<Rightarrow> 'p CombatManager" where
  "CombatManager_delete combat_id m = m\<lparr>combats := (combats m)(combat_id := None)\<rparr>"

text \<open>
  Every change the registry can undergo: a \<^verbatim>\<open>createCombat\<close> call, or the deletion a
  session's \<^verbatim>\<open>removeSelf\<close> performs. \<open>run_manager\<close> plays a sequence of them and
  returns the identifiers the \<^verbatim>\<open>createCombat\<close> calls returned, in call order.
\<close>

datatype 'p manager_op =
  CreateCombat string 'p string "string list" "string \<Rightarrow> OnDeleted"
  | DeleteCombat string

fun is_create :: "'p manager_op \<Rightarrow> bool" where
  "is_create (CreateCombat n p g ps h) = True"
| "is_create (DeleteCombat i) = False"

fun run_manager :: "'p CombatManager \<Rightarrow> 'p manager_op list \<Rightarrow> string list \<times> 'p CombatManager" where
  "run_manager m [] = ([], m)"
| "run_manager m (CreateCombat n p g ps h # ops) =
     (let (combat_id, m1) = CombatManager_createCombat n p g ps h m;
          (ids, m2) = run_manager m1 ops
      in (combat_id # ids, m2))"
| "run_manager m (DeleteCombat i # ops) = run_manager (CombatManager_delete i m) ops"

text \<open>A hook for concrete runs of the registry: it captures the list at address 0.\<close>

definition example_hook :: "string \<Rightarrow> OnDeleted" where
  "example_hook combatId = \<lparr>od_combats = 0, od_combatId = combatId\<rparr>"

section \<open>LobbyService: the per-lobby session lists and the removal callback\<close>

text \<open>
  \<^verbatim>\<open>managingCombats\<close> maps a lobby to an \<^verbatim>\<open>Array\<close> object, and the hook built by
  \<^verbatim>\<open>createCombat\<close> keeps a reference to that same object. The arrays therefore live
  in a store indexed by address; the map and the hooks hold addresses. The world is the
  registry singleton together with the lobby service's map and the store.
\<close>

record 'p world =
  manager :: "'p CombatManager"
  managingCombats :: "string \<rightharpoonup> addr"
  arrays :: "addr \<Rightarrow> string list"
  nextArray :: addr

definition init_world :: "'p world" where
  "init_world =
     \<lparr>manager = new_CombatManager, managingCombats = Map.empty,
      arrays = (\<lambda>a. []), nextArray = 0\<rparr>"

text \<open>\<^verbatim>\<open>getActiveCombats\<close>: the lobby's array, or a new empty one.\<close>

definition getActiveCombats :: "'p world \<Rightarrow> string \<Rightarrow> string list" where
  "getActiveCombats w lobby_id =
     (case managingCombats w lobby_id of Some a \<Rightarrow> arrays w a | None \<Rightarrow> [])"

text \<open>
  \<^verbatim>\<open>this.managingCombats.set(lobby_id, this.managingCombats.get(lobby_id) || [])\<close>:
  an array is truthy even when empty, so an existing entry is set to itself and only a
  missing entry receives a newly allocated empty array.
\<close>

definition ensure_list :: "string \<Rightarrow> 'p world \<Rightarrow> 'p world" where
  "ensure_list lobby_id w =
     (case managingCombats w lobby_id of
        Some a \<Rightarrow> w
      | None \<Rightarrow>
          w\<lparr>managingCombats := (managingCombats w)(lobby_id \<mapsto> nextArray w),
            arrays := (arrays w)(nextArray w := []),
            nextArray := nextArray w + 1\<rparr>)"

text \<open>
  The hook of \<^verbatim>\<open>LobbyService.createCombat\<close>:
  \<^verbatim>\<open>const index = combats.indexOf(combatId); if (index !== -1) combats.splice(index, 1)\<close>.
\<close>

definition run_onDeleted :: "OnDeleted \<Rightarrow> 'p world \<Rightarrow> 'p world" where
  "run_onDeleted cl w =
     (let index = indexOf (arrays w (od_combats cl)) (od_combatId cl)
      in if index \<noteq> - 1
         then w\<lparr>arrays := (arrays w)(od_combats cl :=
                  splice1 (nat index) (arrays w (od_combats cl)))\<rparr>
         else w)"

text \<open>
  \<^verbatim>\<open>removeSelf\<close> of \<^verbatim>\<open>CombatManager.createCombat\<close>, for any hook:
  \<^verbatim>\<open>this.combats.delete(combat_id); onDeleted()\<close>.
\<close>

definition run_removeSelf :: "string \<Rightarrow> ('p world \<Rightarrow> 'p world) \<Rightarrow> 'p world \<Rightarrow> 'p world" where
  "run_removeSelf combat_id onDeleted w =
     onDeleted (w\<lparr>manager := CombatManager_delete combat_id (manager w)\<rparr>)"

text \<open>Invoking the removal callback a session was constructed with.\<close>

definition invoke_removeSelf :: "RemoveSelf \<Rightarrow> 'p world \<Rightarrow> 'p world" where
  "invoke_removeSelf rs w =
     run_removeSelf (rs_combat_id rs) (run_onDeleted (rs_onDeleted rs)) w"

text \<open>
  \<^verbatim>\<open>LobbyService.createCombat\<close>, returning \<^verbatim>\<open>string | null\<close>. The branch
  \<^verbatim>\<open>if (combats)\<close> tests the result of \<^verbatim>\<open>Map.get\<close>, which is undefined for a
  missing key.
\<close>

definition LobbyService_createCombat ::
  "string \<Rightarrow> string \<Rightarrow> 'p \<Rightarrow> string \<Rightarrow> string list \<Rightarrow> 'p world \<Rightarrow> string option \<times> 'p world" where
  "LobbyService_createCombat lobby_id nickname preset gm_id players w =
     (let w1 = ensure_list lobby_id w
      in case managingCombats w1 lobby_id of
           Some a \<Rightarrow>
             (let (combatId, m) =
                    CombatManager_createCombat nickname preset gm_id players
                      (\<lambda>combatId. \<lparr>od_combats = a, od_combatId = combatId\<rparr>) (manager w1)
              in (Some combatId,
                  w1\<lparr>manager := m, arrays := (arrays w1)(a := arrays w1 a @ [combatId])\<rparr>))
         | None \<Rightarrow> (None, w1))"

subsection \<open>Socket admission\<close>

text \<open>
  What \<^verbatim>\<open>manageSocket\<close> does to the outside is recorded as the list of calls it makes,
  in order: \<^verbatim>\<open>socket.emit\<close>, \<^verbatim>\<open>socket.disconnect\<close> (through
  \<^verbatim>\<open>disconnectSocket\<close>) and \<^verbatim>\<open>combat.handlePlayer\<close>. Console output is left out.
  \<^verbatim>\<open>AuthService.verifyAccessToken\<close> is a parameter: it gives the user's identifier, or
  \<open>None\<close> where it throws.
\<close>

datatype call = Emit socket string | Disconnect socket | HandlePlayer string string socket

definition manageSocket ::
  "(string \<Rightarrow> string option) \<Rightarrow> socket \<Rightarrow> string \<Rightarrow> string \<Rightarrow> 'p world \<Rightarrow> call list \<times> 'p world" where
  "manageSocket verifyAccessToken sock combat_id userToken w =
     (case CombatManager_get (manager w) combat_id of
        None \<Rightarrow> ([Disconnect sock], w)
      | Some combat \<Rightarrow>
          (case verifyAccessToken userToken of
             None \<Rightarrow> ([Emit sock ''invalid_token'', Disconnect sock], w)
           | Some user_id \<Rightarrow>
               if isPlayerInCombat combat user_id then ([Disconnect sock], w)
               else ([HandlePlayer combat_id user_id sock],
                     w\<lparr>manager := (manager w)\<lparr>combats := (combats (manager w))(combat_id \<mapsto>
                          handlePlayer combat user_id sock)\<rparr>\<rparr>)))"

subsection \<open>Reachable worlds\<close>

text \<open>
  The worlds the program can be in while its counter is exact, together with the removal
  callbacks handed to sessions so far (a session object, and with it its callback, can
  outlive its registry entry). A step creates a combat, invokes one of the callbacks
  handed out, or changes the inner state of a registered session while keeping its
  callback (an admitted player, a round played). Combats are created as long as the
  counter is below \<open>2^53\<close>: these are the first \<open>2^53\<close> creations of the process.
\<close>

inductive reach :: "'p world \<Rightarrow> RemoveSelf set \<Rightarrow> bool" where
  reach_init: "reach init_world {}"
| reach_create:
    "reach w C \<Longrightarrow>
     managedSoFar (manager w) < counter_limit \<Longrightarrow>
     LobbyService_createCombat lobby_id nickname preset gm_id players w = (Some combatId, w') \<Longrightarrow>
     CombatManager_get (manager w') combatId = Some c \<Longrightarrow>
     reach w' (insert (cc_removeSelf c) C)"
| reach_remove:
    "reach w C \<Longrightarrow> rs \<in> C \<Longrightarrow> reach (invoke_removeSelf rs w) C"
| reach_session:
    "reach w C \<Longrightarrow>
     CombatManager_get (manager w) combat_id = Some c \<Longrightarrow>
     cc_removeSelf c' = cc_removeSelf c \<Longrightarrow>
     reach (w\<lparr>manager := (manager w)\<lparr>combats := (combats (manager w))(combat_id \<mapsto> c')\<rparr>\<rparr>) C"

text \<open>The consistency that every reachable world has, between registry, lists and callbacks.\<close>

definition consistent :: "'p world \<Rightarrow> RemoveSelf set \<Rightarrow> bool" where
  "consistent w C \<longleftrightarrow>
     (\<forall>rs \<in> C. \<exists>k < managedSoFar (manager w).
         rs_combat_id rs = toString k \<and> od_combatId (rs_onDeleted rs) = toString k) \<and>
     (\<forall>rs \<in> C. \<forall>rs' \<in> C. rs_combat_id rs = rs_combat_id rs' \<longrightarrow> rs = rs') \<and>
     (\<forall>cid c. combats (manager w) cid = Some c \<longrightarrow>
         cc_removeSelf c \<in> C \<and> rs_combat_id (cc_removeSelf c) = cid) \<and>
     (\<forall>a. distinct (arrays w a)) \<and>
     (\<forall>a cid. cid \<in> set (arrays w a) \<longrightarrow>
         (\<exists>c. combats (manager w) cid = Some c \<and> od_combats (rs_onDeleted (cc_removeSelf c)) = a))"

subsection \<open>A concrete world\<close>

text \<open>
  The scenario of the specification: from the initial world,
  \<^verbatim>\<open>createCombat("lobby1", "Boss Fight", seed, "gm1", ["p1", "p2"])\<close>, and the removal
  callback the new session holds.
\<close>

definition example_world :: "unit world" where
  "example_world =
     snd (LobbyService_createCombat ''lobby1'' ''Boss Fight'' () ''gm1'' [''p1'', ''p2''] init_world)"

definition example_callback :: RemoveSelf where
  "example_callback =
     \<lparr>rs_combat_id = ''0'', rs_onDeleted = \<lparr>od_combats = 0, od_combatId = ''0''\<rparr>\<rparr>"

text \<open>Two token verifiers: one that rejects every token, one that knows the token of player p1.\<close>

definition no_valid_token :: "string \<Rightarrow> string option" where
  "no_valid_token userToken = None"

definition token_of_p1 :: "string \<Rightarrow> string option" where
  "token_of_p1 userToken = (if userToken = ''token-p1'' then Some ''p1'' else None)"

fun is_HandlePlayer :: "call \<Rightarrow> bool" where
  "is_HandlePlayer (HandlePlayer combat_id user_id sock) = True"
| "is_HandlePlayer (Emit sock name) = False"
| "is_HandlePlayer (Disconnect sock) = False"

section \<open>Storage: DatabaseService\<close>

datatype error = BadRequest string | NotFound string | InternalServerError | BSONError

text \<open>
  \<^verbatim>\<open>new Types.ObjectId(s)\<close> (the database driver's constructor) on a string: a string
  of 24 hexadecimal digits denotes the 12 bytes it spells, upper and lower case alike;
  a string that is not of that form makes the constructor throw. (Older releases of the
  driver also take a 12-character string as the bytes themselves; nothing below rests
  on how such a string is treated.)
\<close>

datatype ObjectId = ObjectId string

definition is_hex_digit :: "char \<Rightarrow> bool" where
  "is_hex_digit c = (c \<in> set ''0123456789abcdefABCDEF'')"

definition lower_hex :: "char \<Rightarrow> char" where
  "lower_hex c =
     (if c = CHR ''A'' then CHR ''a'' else if c = CHR ''B'' then CHR ''b''
      else if c = CHR ''C'' then CHR ''c'' else if c = CHR ''D'' then CHR ''d''
      else if c = CHR ''E'' then CHR ''e'' else if c = CHR ''F'' then CHR ''f'' else c)"

definition new_ObjectId :: "string \<Rightarrow> error + ObjectId" where
  "new_ObjectId s =
     (if length s = 24 \<and> list_all is_hex_digit s then Inr (ObjectId (map lower_hex s))
      else Inl BSONError)"

text \<open>The documents. \<^verbatim>\<open>LobbyClass\<close> and \<^verbatim>\<open>PlayerClass\<close> are declared in
  \<^verbatim>\<open>LobbyModel.ts\<close>; the user and combat-preset classes are not among the sources
  and carry the fields \<^verbatim>\<open>DatabaseService\<close> gives them; a character document is
  never inspected here and stays a type parameter. Dates are numbers.\<close>

record PlayerClass =
  player_userId :: string
  player_nickname :: string
  player_characterId :: "string option"

record LobbyClass =
  lobby_name :: string
  lobby_createdAt :: nat
  lobby_gm_id :: string
  lobby_players :: "PlayerClass list"
  lobby_relatedPresets :: "string list"

record UserClass =
  user_handle :: string
  user_hashedPassword :: string
  user_createdAt :: nat

datatype source = Dlc | Embedded

datatype control_type = Player | AI | GameLogic

text \<open>
  \<^verbatim>\<open>ControlInfo\<close>, and the \<^verbatim>\<open>controlled_by\<close> of a stored pawn, as the object both
  are at run time: a type tag and an optional identifier. The three variants of the
  TypeScript union are \<open>(Player, id or None)\<close>, \<open>(AI, Some id)\<close> and \<open>(GameLogic, None)\<close>.
\<close>

record ControlInfo =
  control_type :: control_type
  control_id :: "string option"

record FieldPawn =
  pawn_path :: string
  pawn_square :: string
  pawn_source :: source
  pawn_controlled_by :: ControlInfo

record CombatClass =
  preset_field :: "FieldPawn list"

record 'c Database =
  lobbies :: "ObjectId \<rightharpoonup> LobbyClass"
  users :: "ObjectId \<rightharpoonup> UserClass"
  characters :: "ObjectId \<rightharpoonup> 'c"
  combat_presets :: "ObjectId \<rightharpoonup> CombatClass"

definition empty_Database :: "'c Database" where
  "empty_Database =
     \<lparr>lobbies = Map.empty, users = Map.empty, characters = Map.empty,
      combat_presets = Map.empty\<rparr>"

text \<open>The four lookups: \<^verbatim>\<open>Model.findOne({ _id: new Types.ObjectId(id) })\<close>, which
  resolves to the document or to null; \<^verbatim>\<open>getLobby\<close> alone first returns null for an
  empty identifier.\<close>

definition getLobby :: "'c Database \<Rightarrow> string \<Rightarrow> error + LobbyClass option" where
  "getLobby db lobbyId =
     (if lobbyId = [] then Inr None
      else case new_ObjectId lobbyId of Inl e \<Rightarrow> Inl e | Inr oid \<Rightarrow> Inr (lobbies db oid))"

definition getUser :: "'c Database \<Rightarrow> string \<Rightarrow> error + UserClass option" where
  "getUser db userId =
     (case new_ObjectId userId of Inl e \<Rightarrow> Inl e | Inr oid \<Rightarrow> Inr (users db oid))"

definition getCharacter :: "'c Database \<Rightarrow> string \<Rightarrow> error + 'c option" where
  "getCharacter db characterId =
     (case new_ObjectId characterId of Inl e \<Rightarrow> Inl e | Inr oid \<Rightarrow> Inr (characters db oid))"

definition getCombatPreset :: "'c Database \<Rightarrow> string \<Rightarrow> error + CombatClass option" where
  "getCombatPreset db combatPresetId =
     (case new_ObjectId combatPresetId of
        Inl e \<Rightarrow> Inl e
      | Inr oid \<Rightarrow> Inr (combat_presets db oid))"

text \<open>
  \<^verbatim>\<open>createNewCombatPreset\<close>: the immediately invoked function that walks the field
  with the list \<^verbatim>\<open>occupiedSquares\<close>, then the save. Building and saving the document
  (\<^verbatim>\<open>saveDocument\<close>, which validates, stores under a new identifier, or throws
  \<^verbatim>\<open>InternalServerError\<close>) is a parameter.
\<close>

fun check_occupiedSquares :: "string list \<Rightarrow> FieldPawn list \<Rightarrow> error + unit" where
  "check_occupiedSquares occupiedSquares [] = Inr ()"
| "check_occupiedSquares occupiedSquares (pawn # rest) =
     (if pawn_square pawn \<in> set occupiedSquares
      then Inl (BadRequest ''Multiple pawns on the same square'')
      else check_occupiedSquares (occupiedSquares @ [pawn_square pawn]) rest)"

definition createNewCombatPreset ::
  "(CombatClass \<Rightarrow> 'c Database \<Rightarrow> error + ObjectId \<times> 'c Database) \<Rightarrow> FieldPawn list
     \<Rightarrow> 'c Database \<Rightarrow> error + ObjectId \<times> 'c Database" where
  "createNewCombatPreset saveDocument fld db =
     (case check_occupiedSquares [] fld of
        Inl e \<Rightarrow> Inl e
      | Inr u \<Rightarrow> saveDocument \<lparr>preset_field = fld\<rparr> db)"

section \<open>The preset-cooking pipeline\<close>

text \<open>
  \<^verbatim>\<open>GamePreset\<close> of \<^verbatim>\<open>ServerModels.ts\<close>: two objects used as dictionaries. The
  entity definition (\<^verbatim>\<open>CharacterPreset\<close>) is only copied, so it is a type parameter.
\<close>

record EntityPreset =
  ep_source :: source
  ep_name :: string

record PawnEntry =
  entity_preset :: EntityPreset
  owner :: ControlInfo

record 'e GamePreset =
  field_pawns :: "string \<rightharpoonup> PawnEntry"
  custom_entities :: "string \<rightharpoonup> 'e"

definition empty_GamePreset :: "'e GamePreset" where
  "empty_GamePreset = \<lparr>field_pawns = Map.empty, custom_entities = Map.empty\<rparr>"

text \<open>
  \<^verbatim>\<open>obj[key] = value\<close> on an object created by the literal \<^verbatim>\<open>{}\<close>, with a value that
  is itself an object. The dictionary is the object's own properties. Every key becomes
  an own property holding the value, except \<^verbatim>\<open>"__proto__"\<close>: that assignment reaches
  the accessor inherited from \<^verbatim>\<open>Object.prototype\<close>, which replaces the object's
  prototype and adds no own property. (The values stored here are plain data objects, so
  a prototype replaced in this way brings no setter of its own, and later assignments
  behave the same.)
\<close>

definition js_set :: "(string \<rightharpoonup> 'v) \<Rightarrow> string \<Rightarrow> 'v \<Rightarrow> (string \<rightharpoonup> 'v)" where
  "js_set obj key v = (if key = ''__proto__'' then obj else obj(key \<mapsto> v))"

text \<open>
  \<^verbatim>\<open>DatabaseService.getEntity\<close> is called by the cooking functions but is not among
  the methods of \<^verbatim>\<open>DatabaseService\<close> in the sources; it is the parameter
  \<open>getEntity\<close>, giving the entity definition stored under a path or \<open>None\<close> (null).

  The loop of \<^verbatim>\<open>cookPresetFromDB\<close> over \<^verbatim>\<open>presetFromDB.field\<close>, with \<open>result\<close>
  the object under construction; a throw ends the loop and discards it.
\<close>

fun cook_field_pawns ::
  "(string \<Rightarrow> 'e option) \<Rightarrow> FieldPawn list \<Rightarrow> 'e GamePreset \<Rightarrow> error + 'e GamePreset" where
  "cook_field_pawns getEntity [] result = Inr result"
| "cook_field_pawns getEntity (pawn # rest) result =
     (let result1 = result\<lparr>field_pawns := js_set (field_pawns result) (pawn_square pawn)
            \<lparr>entity_preset = \<lparr>ep_source = pawn_source pawn, ep_name = pawn_path pawn\<rparr>,
             owner = pawn_controlled_by pawn\<rparr>\<rparr>
      in if pawn_source pawn = Embedded
         then (case getEntity (pawn_path pawn) of
                 None \<Rightarrow> Inl (NotFound ''Entity not found'')
               | Some customEntity \<Rightarrow>
                   cook_field_pawns getEntity rest
                     (result1\<lparr>custom_entities :=
                        js_set (custom_entities result1) (pawn_path pawn) customEntity\<rparr>))
         else cook_field_pawns getEntity rest result1)"

definition cookPresetFromDB ::
  "(string \<Rightarrow> 'e option) \<Rightarrow> 'c Database \<Rightarrow> string \<Rightarrow> error + 'e GamePreset option" where
  "cookPresetFromDB getEntity db combatPreset =
     (case getCombatPreset db combatPreset of
        Inl e \<Rightarrow> Inl e
      | Inr None \<Rightarrow> Inr None
      | Inr (Some presetFromDB) \<Rightarrow>
          (case cook_field_pawns getEntity (preset_field presetFromDB) empty_GamePreset of
             Inl e \<Rightarrow> Inl e
           | Inr result \<Rightarrow> Inr (Some result)))"

text \<open>
  \<^verbatim>\<open>cookPresetFromRequest\<close>. Its argument's \<^verbatim>\<open>field\<close> is an object keyed by square;
  the model takes what \<^verbatim>\<open>Object.entries\<close> yields for it, the list of its
  (square, pawn) pairs, in which every square occurs once. (A payload parsed from JSON
  can have the own key \<^verbatim>\<open>"__proto__"\<close>, so that square can occur too.)
\<close>

record RequestPawn =
  req_path :: string
  req_source :: source
  req_controlledBy :: ControlInfo

fun cook_entries ::
  "(string \<Rightarrow> 'e option) \<Rightarrow> (string \<times> RequestPawn) list \<Rightarrow> 'e GamePreset
     \<Rightarrow> error + 'e GamePreset" where
  "cook_entries getEntity [] result = Inr result"
| "cook_entries getEntity ((square, pawn) # rest) result =
     (let result1 = result\<lparr>field_pawns := js_set (field_pawns result) square
            \<lparr>entity_preset = \<lparr>ep_source = req_source pawn, ep_name = req_path pawn\<rparr>,
             owner = req_controlledBy pawn\<rparr>\<rparr>
      in if req_source pawn = Embedded
         then (case getEntity (req_path pawn) of
                 None \<Rightarrow> Inl (NotFound ''Entity not found'')
               | Some customEntity \<Rightarrow>
                   cook_entries getEntity rest
                     (result1\<lparr>custom_entities :=
                        js_set (custom_entities result1) (req_path pawn) customEntity\<rparr>))
         else cook_entries getEntity rest result1)"

definition cookPresetFromRequest ::
  "(string \<Rightarrow> 'e option) \<Rightarrow> (string \<times> RequestPawn) list \<Rightarrow> error + 'e GamePreset" where
  "cookPresetFromRequest getEntity entries = cook_entries getEntity entries empty_GamePreset"

text \<open>Whether some embedded reference, among (source, path) pairs, has no entity in storage.\<close>

definition dangling :: "(string \<Rightarrow> 'e option) \<Rightarrow> (source \<times> string) list \<Rightarrow> bool" where
  "dangling getEntity refs =
     list_ex (\<lambda>r. fst r = Embedded \<and> getEntity (snd r) = None) refs"

subsection \<open>Concrete presets\<close>

definition stacked_field :: "FieldPawn list" where
  "stacked_field =
     [\<lparr>pawn_path = ''goblin'', pawn_square = ''A1'', pawn_source = Dlc,
       pawn_controlled_by = \<lparr>control_type = AI, control_id = Some ''g1''\<rparr>\<rparr>,
      \<lparr>pawn_path = ''orc'', pawn_square = ''A1'', pawn_source = Dlc,
       pawn_controlled_by = \<lparr>control_type = GameLogic, control_id = None\<rparr>\<rparr>]"

definition stacked_db :: "unit Database" where
  "stacked_db =
     empty_Database\<lparr>combat_presets :=
       [ObjectId ''0123456789abcdef01234567'' \<mapsto> \<lparr>preset_field = stacked_field\<rparr>]\<rparr>"

definition goblin_field :: "FieldPawn list" where
  "goblin_field =
     [\<lparr>pawn_path = ''goblin'', pawn_square = ''A1'', pawn_source = Embedded,
       pawn_controlled_by = \<lparr>control_type = AI, control_id = Some ''g1''\<rparr>\<rparr>]"

definition goblin_db :: "unit Database" where
  "goblin_db =
     empty_Database\<lparr>combat_presets :=
       [ObjectId ''0123456789abcdef01234567'' \<mapsto> \<lparr>preset_field = goblin_field\<rparr>]\<rparr>"

definition goblin_request :: "(string \<times> RequestPawn) list" where
  "goblin_request =
     [(''A1'', \<lparr>req_path = ''goblin'', req_source = Embedded,
               req_controlledBy = \<lparr>control_type = AI, control_id = Some ''g1''\<rparr>\<rparr>)]"

definition no_entities :: "string \<Rightarrow> unit option" where
  "no_entities path = None"

text \<open>A save that succeeds: it stores the document under a fixed identifier.\<close>

definition store_first :: "CombatClass \<Rightarrow> unit Database \<Rightarrow> error + ObjectId \<times> unit Database" where
  "store_first doc db =
     Inr (ObjectId ''0123456789abcdef01234567'',
          db\<lparr>combat_presets := (combat_presets db)(ObjectId ''0123456789abcdef01234567'' \<mapsto> doc)\<rparr>)"

section \<open>The lobby-info aggregation\<close>

text \<open>
  The part of \<^verbatim>\<open>LobbyService.getLobbyInfo\<close> that builds the \<^verbatim>\<open>combats\<close> field of its
  result (the lookup of the lobby and the loop over \<^verbatim>\<open>managingCombats\<close>); the other
  fields of the result do not depend on the sessions. The world is read at one instant.
\<close>

record ActivePlayerInfo =
  ap_handle :: string
  ap_nickname :: string

record CombatInfo =
  info_nickname :: string
  info_isActive :: bool
  info_roundCount :: nat
  info_id :: string
  info_activePlayers :: "ActivePlayerInfo list"

text \<open>\<^verbatim>\<open>playerIds.map(async (playerId) => ...)\<close> awaited with \<^verbatim>\<open>Promise.all\<close>.\<close>

fun activePlayers :: "'c Database \<Rightarrow> LobbyClass \<Rightarrow> string list \<Rightarrow> error + ActivePlayerInfo list" where
  "activePlayers db lobby [] = Inr []"
| "activePlayers db lobby (playerId # rest) =
     (case getUser db playerId of
        Inl e \<Rightarrow> Inl e
      | Inr userInDB \<Rightarrow>
          (case activePlayers db lobby rest of
             Inl e \<Rightarrow> Inl e
           | Inr others \<Rightarrow>
               Inr (\<lparr>ap_handle = (case userInDB of Some u \<Rightarrow> user_handle u | None \<Rightarrow> []),
                     ap_nickname =
                       (case find (\<lambda>p. player_userId p = playerId) (lobby_players lobby) of
                          Some p \<Rightarrow> player_nickname p
                        | None \<Rightarrow> [])\<rparr> # others)))"

text \<open>The body of \<^verbatim>\<open>for (const combat_id in combats)\<close>, over the keys still to visit.\<close>

fun combatInfo_loop ::
  "'c Database \<Rightarrow> 'p world \<Rightarrow> LobbyClass \<Rightarrow> string list \<Rightarrow> error + CombatInfo list" where
  "combatInfo_loop db w lobby [] = Inr []"
| "combatInfo_loop db w lobby (combat_id # rest) =
     (case CombatManager_get (manager w) combat_id of
        None \<Rightarrow> combatInfo_loop db w lobby rest
      | Some combat \<Rightarrow>
          (case activePlayers db lobby (getPlayersInCombat combat) of
             Inl e \<Rightarrow> Inl e
           | Inr players \<Rightarrow>
               (case combatInfo_loop db w lobby rest of
                  Inl e \<Rightarrow> Inl e
                | Inr infos \<Rightarrow>
                    Inr (\<lparr>info_nickname = combatNickname combat,
                          info_isActive = isActive combat,
                          info_roundCount = (if isActive combat then getRoundCount combat else 0),
                          info_id = combat_id,
                          info_activePlayers = players\<rparr> # infos))))"

definition getLobbyInfo_combats ::
  "'c Database \<Rightarrow> 'p world \<Rightarrow> string \<Rightarrow> error + CombatInfo list" where
  "getLobbyInfo_combats db w lobby_id =
     (case getLobby db lobby_id of
        Inl e \<Rightarrow> Inl e
      | Inr None \<Rightarrow> Inr []
      | Inr (Some lobby) \<Rightarrow>
          (case managingCombats w lobby_id of
             None \<Rightarrow> Inr []
           | Some a \<Rightarrow> combatInfo_loop db w lobby (for_in_keys (arrays w a))))"

subsection \<open>Two lobbies with one combat each\<close>

definition lobby_A :: string where
  "lobby_A = ''aaaaaaaaaaaaaaaaaaaaaaaa''"

definition lobby_B :: string where
  "lobby_B = ''bbbbbbbbbbbbbbbbbbbbbbbb''"

definition two_lobbies_db :: "unit Database" where
  "two_lobbies_db =
     empty_Database\<lparr>lobbies :=
       [ObjectId lobby_A \<mapsto>
          \<lparr>lobby_name = ''Lobby A'', lobby_createdAt = 0, lobby_gm_id = ''gmA'',
           lobby_players = [], lobby_relatedPresets = []\<rparr>,
        ObjectId lobby_B \<mapsto>
          \<lparr>lobby_name = ''Lobby B'', lobby_createdAt = 0, lobby_gm_id = ''gmB'',
           lobby_players = [], lobby_relatedPresets = []\<rparr>]\<rparr>"

definition two_lobbies_world :: "unit world" where
  "two_lobbies_world =
     snd (LobbyService_createCombat lobby_B ''Fight B'' () ''gmB'' []
       (snd (LobbyService_createCombat lobby_A ''Fight A'' () ''gmA'' [] init_world)))"

section \<open>Properties of the identifiers\<close>

lemma digit_char_inj:
  assumes "a < 10" and "b < 10" and "digit_char a = digit_char b"
  shows "a = b"
proof -
  have "distinct ''0123456789''" by simp
  moreover have "length ''0123456789'' = 10" by simp
  ultimately show ?thesis
    using assms unfolding digit_char_def by (metis nth_eq_iff_index_eq)
qed

lemma toString_small: "n < 10 \<Longrightarrow> toString n = [digit_char n]"
  by (subst toString.simps) simp

lemma toString_large:
  "\<not> n < 10 \<Longrightarrow> toString n = toString (n div 10) @ [digit_char (n mod 10)]"
  by (subst toString.simps) simp

lemma toString_nonempty: "toString n \<noteq> []"
  by (subst toString.simps) simp

lemma toString_inj: "toString m = toString n \<Longrightarrow> m = n"
proof (induction m arbitrary: n rule: toString.induct)
  case (1 m)
  show ?case
  proof (cases "m < 10")
    case True
    note msmall = toString_small [OF True]
    show ?thesis
    proof (cases "n < 10")
      case True
      from msmall toString_small [OF True] "1.prems"
      have "digit_char m = digit_char n" by simp
      with \<open>m < 10\<close> True show ?thesis by (rule digit_char_inj)
    next
      case False
      from msmall toString_large [OF False] "1.prems" toString_nonempty [of "n div 10"]
      show ?thesis by (cases "toString (n div 10)") auto
    qed
  next
    case False
    note mlarge = toString_large [OF False]
    show ?thesis
    proof (cases "n < 10")
      case True
      from mlarge toString_small [OF True] "1.prems" toString_nonempty [of "m div 10"]
      show ?thesis by (cases "toString (m div 10)") auto
    next
      case nlarge: False
      from mlarge toString_large [OF nlarge] "1.prems"
      have init_eq: "toString (m div 10) = toString (n div 10)"
        and last_eq: "digit_char (m mod 10) = digit_char (n mod 10)" by auto
      from "1.IH" [OF False init_eq] have "m div 10 = n div 10" .
      moreover from last_eq have "m mod 10 = n mod 10" by (auto intro: digit_char_inj)
      ultimately show ?thesis by (metis div_mult_mod_eq)
    qed
  qed
qed

lemma toString_eq_iff [simp]: "toString m = toString n \<longleftrightarrow> m = n"
  by (auto dest: toString_inj)

lemma toString_0: "toString 0 = ''0''"
  by (simp add: toString_small digit_char_def)

lemma toString_Suc_0: "toString (Suc 0) = ''1''"
  by (simp add: toString_small digit_char_def)

lemma counter_limit_pos: "0 < counter_limit"
  by (simp add: counter_limit_def)

lemma counter_limit_gt_one: "Suc 0 < counter_limit"
  by (simp add: counter_limit_def)

lemma increment_below: "n < counter_limit \<Longrightarrow> increment n = Suc n"
  by (simp add: increment_def)

lemma increment_at: "\<not> n < counter_limit \<Longrightarrow> increment n = n"
  by (simp add: increment_def)

lemma increment_bounded: "n \<le> counter_limit \<Longrightarrow> increment n \<le> counter_limit"
  by (simp add: increment_def)

lemma createCombat_counter:
  "managedSoFar (snd (CombatManager_createCombat n p g ps h m)) = increment (managedSoFar m)"
  by (simp add: CombatManager_createCombat_def Let_def)

lemma createCombat_id:
  "fst (CombatManager_createCombat n p g ps h m) = toString (managedSoFar m)"
  by (simp add: CombatManager_createCombat_def Let_def)

lemma ids_at_limit:
  "counter_limit \<le> a \<Longrightarrow>
   map (\<lambda>i. toString (min i counter_limit)) [a ..< a + k] = replicate k (toString counter_limit)"
proof (induction k)
  case 0
  show ?case by simp
next
  case (Suc k)
  from Suc.prems have "min (a + k) counter_limit = counter_limit" by simp
  with Suc show ?case by (simp add: replicate_append_same)
qed

text \<open>
  The identifiers a registry hands out, whatever its history: the numeral of the
  counter, which stops at \<open>2^53\<close>.
\<close>

lemma run_manager_ids:
  "managedSoFar m \<le> counter_limit \<Longrightarrow>
   fst (run_manager m ops) =
     map (\<lambda>i. toString (min i counter_limit))
       [managedSoFar m ..< managedSoFar m + length (filter is_create ops)]"
proof (induction m ops rule: run_manager.induct)
  case (1 m)
  show ?case by simp
next
  case (2 m n p g ps h ops)
  let ?c = "managedSoFar m"
  let ?m1 = "snd (CombatManager_createCombat n p g ps h m)"
  let ?k = "length (filter is_create ops)"
  let ?f = "\<lambda>i. toString (min i counter_limit)"
  have counter: "managedSoFar ?m1 = increment ?c" by (rule createCombat_counter)
  with "2.prems" have bounded: "managedSoFar ?m1 \<le> counter_limit"
    by (simp add: increment_bounded)
  have rest: "fst (run_manager ?m1 ops) = map ?f [increment ?c ..< increment ?c + ?k]"
    using "2.IH" [of "(fst (CombatManager_createCombat n p g ps h m), ?m1)"
        "fst (CombatManager_createCombat n p g ps h m)" ?m1] bounded counter by simp
  have unfold: "fst (run_manager m (CreateCombat n p g ps h # ops)) =
      toString ?c # map ?f [increment ?c ..< increment ?c + ?k]"
    by (simp add: split_beta Let_def createCombat_id rest)
  have "toString ?c # map ?f [increment ?c ..< increment ?c + ?k] = map ?f [?c ..< ?c + Suc ?k]"
  proof (cases "?c < counter_limit")
    case True
    have range: "[?c ..< ?c + Suc ?k] = ?c # [Suc ?c ..< Suc ?c + ?k]"
      using upt_conv_Cons [of ?c "?c + Suc ?k"] by (simp del: upt_Suc)
    from True have "min ?c counter_limit = ?c" by simp
    with True show ?thesis unfolding range by (simp add: increment_below)
  next
    case False
    with "2.prems" have at: "?c = counter_limit" by simp
    from False have stay: "increment ?c = ?c" by (rule increment_at)
    have "map ?f [?c ..< ?c + ?k] = replicate ?k (toString counter_limit)"
      and "map ?f [?c ..< ?c + Suc ?k] = replicate (Suc ?k) (toString counter_limit)"
      using at by (simp_all only: ids_at_limit [OF order_refl])
    with at stay show ?thesis by simp
  qed
  with unfold show ?case by simp
next
  case (3 m i ops)
  then show ?case by (simp add: CombatManager_delete_def)
qed

lemma repeated_not_distinct:
  "i < length xs \<Longrightarrow> j < length xs \<Longrightarrow> i \<noteq> j \<Longrightarrow> xs ! i = xs ! j \<Longrightarrow> \<not> distinct xs"
  by (auto simp: nth_eq_iff_index_eq)

text \<open>
  C6, as stated, fails: the counter is a JavaScript number and stops growing at \<open>2^53\<close>.
  On a new registry, of \<open>2^53 + 2\<close> successive \<^verbatim>\<open>createCombat\<close> calls the last two
  return the same identifier, the numeral of \<open>2^53\<close>.
\<close>

theorem session_ids_repeat_counterexample:
  "fst (run_manager (new_CombatManager :: unit CombatManager)
      (replicate (counter_limit + 2) (CreateCombat ''a'' () ''gm'' [] example_hook)))
      ! counter_limit = toString counter_limit
   \<and> fst (run_manager (new_CombatManager :: unit CombatManager)
      (replicate (counter_limit + 2) (CreateCombat ''a'' () ''gm'' [] example_hook)))
      ! (counter_limit + 1) = toString counter_limit
   \<and> \<not> distinct (fst (run_manager (new_CombatManager :: unit CombatManager)
      (replicate (counter_limit + 2) (CreateCombat ''a'' () ''gm'' [] example_hook))))"
proof -
  let ?ids = "fst (run_manager (new_CombatManager :: unit CombatManager)
      (replicate (counter_limit + 2) (CreateCombat ''a'' () ''gm'' [] example_hook)))"
  have start: "managedSoFar (new_CombatManager :: unit CombatManager) = 0"
    by (simp add: new_CombatManager_def)
  have ids: "?ids = map (\<lambda>i. toString (min i counter_limit)) [0 ..< counter_limit + 2]"
    using run_manager_ids [of "new_CombatManager :: unit CombatManager"
        "replicate (counter_limit + 2) (CreateCombat ''a'' () ''gm'' [] example_hook)"]
    by (simp add: start)
  have len: "length ?ids = counter_limit + 2" unfolding ids by simp
  have last_but_one: "?ids ! counter_limit = toString counter_limit"
    unfolding ids by (simp add: nth_append)
  have last_one: "?ids ! (counter_limit + 1) = toString counter_limit"
    unfolding ids by (simp add: nth_append)
  have first_in: "counter_limit < length ?ids" unfolding len by simp
  have second_in: "counter_limit + 1 < length ?ids" unfolding len by simp
  have same: "?ids ! counter_limit = ?ids ! (counter_limit + 1)"
    by (simp only: last_but_one last_one)
  have repeated: "\<not> distinct ?ids"
    by (rule repeated_not_distinct [OF first_in second_in _ same]) simp
  from last_but_one last_one repeated show ?thesis by blast
qed

text \<open>
  C6, amended. Session identifiers are the successive values of the counter rendered as
  strings. As long as the counter stays within the range where it is exact, that is for
  a registry whose counter plus the number of \<^verbatim>\<open>createCombat\<close> calls made does not
  exceed \<open>2^53 + 1\<close>, whatever sequence of \<^verbatim>\<open>createCombat\<close> calls and session
  deletions the registry goes through, the identifiers returned are the numerals of
  consecutive counter values and are pairwise different, so none is handed out again,
  also after the session it named has been deleted.
\<close>

theorem session_ids_distinct_while_exact:
  assumes "managedSoFar m \<le> counter_limit"
    and "managedSoFar m + length (filter is_create ops) \<le> counter_limit + 1"
  shows "fst (run_manager m ops) =
           map toString [managedSoFar m ..< managedSoFar m + length (filter is_create ops)]
       \<and> distinct (fst (run_manager m ops))"
proof -
  let ?range = "[managedSoFar m ..< managedSoFar m + length (filter is_create ops)]"
  have "map (\<lambda>i. toString (min i counter_limit)) ?range = map toString ?range"
  proof (rule map_cong [OF refl])
    fix i assume "i \<in> set ?range"
    with assms(2) have "i \<le> counter_limit" by simp
    then show "toString (min i counter_limit) = toString i" by simp
  qed
  with run_manager_ids [OF assms(1), of ops]
  have ids: "fst (run_manager m ops) = map toString ?range" by simp
  have "inj toString" by (rule injI) simp
  then have "distinct (map toString ?range)" by (simp add: distinct_map inj_on_def)
  with ids show ?thesis by simp
qed

theorem session_ids_distinct_while_exact_witness:
  "managedSoFar (new_CombatManager :: unit CombatManager) \<le> counter_limit
   \<and> managedSoFar (new_CombatManager :: unit CombatManager) + length (filter is_create
        [CreateCombat ''a'' () ''gm'' [] example_hook, DeleteCombat ''0'',
         CreateCombat ''b'' () ''gm'' [] example_hook :: unit manager_op]) \<le> counter_limit + 1
   \<and> fst (run_manager (new_CombatManager :: unit CombatManager)
        [CreateCombat ''a'' () ''gm'' [] example_hook, DeleteCombat ''0'',
         CreateCombat ''b'' () ''gm'' [] example_hook])
      = [''0'', ''1'']
   \<and> distinct (fst (run_manager (new_CombatManager :: unit CombatManager)
        [CreateCombat ''a'' () ''gm'' [] example_hook, DeleteCombat ''0'',
         CreateCombat ''b'' () ''gm'' [] example_hook]))"
proof -
  have start: "managedSoFar (new_CombatManager :: unit CombatManager) \<le> counter_limit"
    by (simp add: new_CombatManager_def)
  have room: "managedSoFar (new_CombatManager :: unit CombatManager) + length (filter is_create
        [CreateCombat ''a'' () ''gm'' [] example_hook, DeleteCombat ''0'',
         CreateCombat ''b'' () ''gm'' [] example_hook :: unit manager_op]) \<le> counter_limit + 1"
    using counter_limit_gt_one by (simp add: new_CombatManager_def)
  from session_ids_distinct_while_exact [OF start room] start room
  show ?thesis by (simp add: new_CombatManager_def upt_rec toString_0 toString_Suc_0)
qed

section \<open>The removal callback and the consistency of registry and lobby lists\<close>

lemma indexOf_lower: "- 1 \<le> indexOf xs x"
  by (induction xs) (auto simp: Let_def)

lemma indexOf_absent: "indexOf xs x = - 1 \<longleftrightarrow> x \<notin> set xs"
proof (induction xs)
  case Nil
  show ?case by simp
next
  case (Cons y ys)
  have "- 1 \<le> indexOf ys x" by (rule indexOf_lower)
  with Cons show ?case by (auto simp: Let_def)
qed

lemma splice1_indexOf:
  "x \<in> set xs \<Longrightarrow> splice1 (nat (indexOf xs x)) xs = remove1 x xs"
proof (induction xs)
  case Nil
  then show ?case by simp
next
  case (Cons y ys)
  show ?case
  proof (cases "y = x")
    case True
    then show ?thesis by (simp add: splice1_def)
  next
    case False
    with Cons.prems have mem: "x \<in> set ys" by simp
    then have present: "indexOf ys x \<noteq> - 1" by (simp add: indexOf_absent)
    with indexOf_lower [of ys x] have nonneg: "0 \<le> indexOf ys x" by linarith
    then have "nat (indexOf ys x + 1) = Suc (nat (indexOf ys x))" by simp
    with False present Cons.IH [OF mem] show ?thesis
      by (simp add: splice1_def Let_def)
  qed
qed

lemma run_onDeleted_remove1:
  "run_onDeleted cl w =
     w\<lparr>arrays := (arrays w)(od_combats cl := remove1 (od_combatId cl) (arrays w (od_combats cl)))\<rparr>"
proof (cases "od_combatId cl \<in> set (arrays w (od_combats cl))")
  case True
  then show ?thesis
    by (simp add: run_onDeleted_def Let_def indexOf_absent splice1_indexOf)
next
  case False
  then have "remove1 (od_combatId cl) (arrays w (od_combats cl)) = arrays w (od_combats cl)"
    by (simp add: remove1_idem)
  with False show ?thesis
    by (simp add: run_onDeleted_def Let_def indexOf_absent)
qed

lemma invoke_removeSelf_eq:
  "invoke_removeSelf rs w =
     w\<lparr>manager := (manager w)\<lparr>combats := (combats (manager w))(rs_combat_id rs := None)\<rparr>,
       arrays := (arrays w)(od_combats (rs_onDeleted rs) :=
          remove1 (od_combatId (rs_onDeleted rs)) (arrays w (od_combats (rs_onDeleted rs))))\<rparr>"
  by (simp add: invoke_removeSelf_def run_removeSelf_def run_onDeleted_remove1
      CombatManager_delete_def)

lemma ensure_list_has_entry: "\<exists>a. managingCombats (ensure_list lobby_id w) lobby_id = Some a"
  by (cases "managingCombats w lobby_id") (simp_all add: ensure_list_def)

lemma ensure_list_manager [simp]: "manager (ensure_list lobby_id w) = manager w"
  by (cases "managingCombats w lobby_id") (simp_all add: ensure_list_def)

lemma ensure_list_arrays:
  "arrays (ensure_list lobby_id w) a = arrays w a \<or> arrays (ensure_list lobby_id w) a = []"
  by (cases "managingCombats w lobby_id") (simp_all add: ensure_list_def)

lemma consistent_ensure_list:
  assumes "consistent w C"
  shows "consistent (ensure_list lobby_id w) C"
proof -
  let ?w1 = "ensure_list lobby_id w"
  have sub: "\<And>a. set (arrays ?w1 a) \<subseteq> set (arrays w a)"
    using ensure_list_arrays [of lobby_id w] by (metis empty_set empty_subsetI subset_refl)
  have dist: "\<And>a. distinct (arrays w a) \<Longrightarrow> distinct (arrays ?w1 a)"
    using ensure_list_arrays [of lobby_id w] by (metis distinct.simps(1))
  from assms sub dist show ?thesis
    unfolding consistent_def ensure_list_manager by (meson subsetD)
qed

lemma LobbyService_createCombat_eq:
  assumes "managingCombats (ensure_list lobby_id w) lobby_id = Some a"
  shows "LobbyService_createCombat lobby_id nickname preset gm_id players w =
    (Some (toString (managedSoFar (manager w))),
     (ensure_list lobby_id w)
       \<lparr>manager := (manager w)
          \<lparr>managedSoFar := increment (managedSoFar (manager w)),
           combats := (combats (manager w))(toString (managedSoFar (manager w)) \<mapsto>
             new_CombatConnection nickname preset
               \<lparr>rs_combat_id = toString (managedSoFar (manager w)),
                rs_onDeleted = \<lparr>od_combats = a, od_combatId = toString (managedSoFar (manager w))\<rparr>\<rparr>
               gm_id players)\<rparr>,
        arrays := (arrays (ensure_list lobby_id w))
           (a := arrays (ensure_list lobby_id w) a @ [toString (managedSoFar (manager w))])\<rparr>)"
  using assms
  by (simp add: LobbyService_createCombat_def CombatManager_createCombat_def Let_def)

lemma consistent_less_fresh:
  assumes "consistent w C"
  shows "toString (managedSoFar (manager w)) \<notin> set (arrays w a)"
proof
  assume "toString (managedSoFar (manager w)) \<in> set (arrays w a)"
  with assms obtain c where "combats (manager w) (toString (managedSoFar (manager w))) = Some c"
    unfolding consistent_def by blast
  with assms have "cc_removeSelf c \<in> C"
    and "rs_combat_id (cc_removeSelf c) = toString (managedSoFar (manager w))"
    unfolding consistent_def by blast+
  with assms obtain k where "k < managedSoFar (manager w)"
    and "toString (managedSoFar (manager w)) = toString k"
    unfolding consistent_def by metis
  then show False by simp
qed

lemma consistent_ids:
  "consistent w C \<Longrightarrow> rs \<in> C \<Longrightarrow>
   \<exists>k < managedSoFar (manager w).
      rs_combat_id rs = toString k \<and> od_combatId (rs_onDeleted rs) = toString k"
  unfolding consistent_def by blast

lemma consistent_unique:
  "consistent w C \<Longrightarrow> rs \<in> C \<Longrightarrow> rs' \<in> C \<Longrightarrow> rs_combat_id rs = rs_combat_id rs' \<Longrightarrow> rs = rs'"
  unfolding consistent_def by blast

lemma consistent_registered:
  "consistent w C \<Longrightarrow> combats (manager w) cid = Some c \<Longrightarrow>
   cc_removeSelf c \<in> C \<and> rs_combat_id (cc_removeSelf c) = cid"
  unfolding consistent_def by blast

lemma consistent_distinct: "consistent w C \<Longrightarrow> distinct (arrays w a)"
  unfolding consistent_def by blast

lemma consistent_listed:
  "consistent w C \<Longrightarrow> cid \<in> set (arrays w a) \<Longrightarrow>
   \<exists>c. combats (manager w) cid = Some c \<and> od_combats (rs_onDeleted (cc_removeSelf c)) = a"
  unfolding consistent_def by blast

lemma consistent_init: "consistent init_world {}"
  by (simp add: consistent_def init_world_def new_CombatManager_def)

lemma consistent_create:
  assumes cons: "consistent w C"
    and exact: "managedSoFar (manager w) < counter_limit"
    and step: "LobbyService_createCombat lobby_id nickname preset gm_id players w = (Some combatId, w')"
    and get: "CombatManager_get (manager w') combatId = Some c"
  shows "consistent w' (insert (cc_removeSelf c) C)"
proof -
  let ?w1 = "ensure_list lobby_id w"
  let ?n = "managedSoFar (manager w)"
  let ?id = "toString ?n"
  obtain a where a: "managingCombats ?w1 lobby_id = Some a"
    using ensure_list_has_entry by blast
  let ?rs = "\<lparr>rs_combat_id = ?id, rs_onDeleted = \<lparr>od_combats = a, od_combatId = ?id\<rparr>\<rparr>"
  let ?c = "new_CombatConnection nickname preset ?rs gm_id players"
  note eq = LobbyService_createCombat_eq [OF a, of nickname preset gm_id players]
  from step eq have id: "combatId = ?id" by simp
  from step eq have mgr: "manager w' =
      (manager w)\<lparr>managedSoFar := ?n + 1, combats := (combats (manager w))(?id \<mapsto> ?c)\<rparr>"
    by (auto simp: increment_below [OF exact])
  from step eq have arr: "arrays w' = (arrays ?w1)(a := arrays ?w1 a @ [?id])" by auto
  from get id mgr have c: "c = ?c" by (simp add: CombatManager_get_def)
  then have rs: "cc_removeSelf c = ?rs" by (simp add: new_CombatConnection_def)
  have cons1: "consistent ?w1 C" using cons by (rule consistent_ensure_list)
  have fresh: "\<And>b. ?id \<notin> set (arrays ?w1 b)"
    using consistent_less_fresh [OF cons1] by simp
  have old_ids: "\<And>r. r \<in> C \<Longrightarrow> rs_combat_id r \<noteq> ?id"
  proof -
    fix r assume "r \<in> C"
    from consistent_ids [OF cons this] obtain k where "k < ?n" "rs_combat_id r = toString k"
      by blast
    then show "rs_combat_id r \<noteq> ?id" by simp
  qed
  show ?thesis unfolding consistent_def
  proof (intro conjI ballI allI impI)
    fix r assume "r \<in> insert (cc_removeSelf c) C"
    then show "\<exists>k < managedSoFar (manager w').
        rs_combat_id r = toString k \<and> od_combatId (rs_onDeleted r) = toString k"
    proof
      assume "r = cc_removeSelf c"
      with rs mgr show ?thesis by (intro exI [of _ ?n]) simp
    next
      assume "r \<in> C"
      from consistent_ids [OF cons this] mgr show ?thesis
        by (auto intro: less_SucI)
    qed
  next
    fix r r' assume r: "r \<in> insert (cc_removeSelf c) C" and r': "r' \<in> insert (cc_removeSelf c) C"
      and same: "rs_combat_id r = rs_combat_id r'"
    show "r = r'"
    proof (cases "r \<in> C")
      case True
      show ?thesis
      proof (cases "r' \<in> C")
        case True
        with \<open>r \<in> C\<close> same cons show ?thesis by (blast dest: consistent_unique)
      next
        case False
        with r' rs have "rs_combat_id r' = ?id" by auto
        with old_ids [OF True] same show ?thesis by simp
      qed
    next
      case False
      with r rs have r_new: "r = cc_removeSelf c" and "rs_combat_id r = ?id" by auto
      show ?thesis
      proof (cases "r' \<in> C")
        case True
        with old_ids [of r'] same \<open>rs_combat_id r = ?id\<close> show ?thesis by simp
      next
        case False
        with r' r_new show ?thesis by auto
      qed
    qed
  next
    fix cid d assume reg: "combats (manager w') cid = Some d"
    have both: "cc_removeSelf d \<in> insert (cc_removeSelf c) C \<and> rs_combat_id (cc_removeSelf d) = cid"
    proof (cases "cid = ?id")
      case True
      with reg mgr c have "d = c" by simp
      with rs True show ?thesis by simp
    next
      case False
      with reg mgr have "combats (manager w) cid = Some d" by simp
      from consistent_registered [OF cons this] show ?thesis by simp
    qed
    from both show "cc_removeSelf d \<in> insert (cc_removeSelf c) C" ..
    from both show "rs_combat_id (cc_removeSelf d) = cid" ..
  next
    fix b
    from consistent_distinct [OF cons1] fresh [of a] arr
    show "distinct (arrays w' b)" by simp
  next
    fix b cid assume mem: "cid \<in> set (arrays w' b)"
    show "\<exists>d. combats (manager w') cid = Some d \<and> od_combats (rs_onDeleted (cc_removeSelf d)) = b"
    proof (cases "cid = ?id")
      case True
      with mem arr fresh [of b] have "b = a" by (auto split: if_splits)
      with True mgr show ?thesis by (simp add: new_CombatConnection_def)
    next
      case False
      with mem arr have "cid \<in> set (arrays ?w1 b)" by (auto split: if_splits)
      from consistent_listed [OF cons1 this] False mgr show ?thesis by simp
    qed
  qed
qed

lemma consistent_remove:
  assumes cons: "consistent w C" and rs: "rs \<in> C"
  shows "consistent (invoke_removeSelf rs w) C"
proof -
  let ?id = "rs_combat_id rs"
  let ?a = "od_combats (rs_onDeleted rs)"
  let ?w' = "invoke_removeSelf rs w"
  from consistent_ids [OF cons rs] have hook_id: "od_combatId (rs_onDeleted rs) = ?id" by auto
  have mgr: "manager ?w' = (manager w)\<lparr>combats := (combats (manager w))(?id := None)\<rparr>"
    by (simp add: invoke_removeSelf_eq)
  have arr: "arrays ?w' = (arrays w)(?a := remove1 ?id (arrays w ?a))"
    by (simp add: invoke_removeSelf_eq hook_id)
  have sub: "\<And>b cid. cid \<in> set (arrays ?w' b) \<Longrightarrow> cid \<in> set (arrays w b)"
    using arr set_remove1_subset [of "rs_combat_id rs" "arrays w (od_combats (rs_onDeleted rs))"]
    by (auto split: if_splits)
  have gone: "\<And>b. ?id \<notin> set (arrays ?w' b)"
  proof
    fix b assume mem: "?id \<in> set (arrays ?w' b)"
    from consistent_listed [OF cons sub [OF mem]] obtain c
      where c: "combats (manager w) ?id = Some c"
        and b: "od_combats (rs_onDeleted (cc_removeSelf c)) = b" by blast
    from consistent_registered [OF cons c] consistent_unique [OF cons _ rs]
    have "cc_removeSelf c = rs" by blast
    with b have "b = ?a" by simp
    with mem arr consistent_distinct [OF cons, of ?a] show False by simp
  qed
  show ?thesis unfolding consistent_def
  proof (intro conjI ballI allI impI)
    fix r assume "r \<in> C"
    from consistent_ids [OF cons this] mgr
    show "\<exists>k < managedSoFar (manager ?w').
        rs_combat_id r = toString k \<and> od_combatId (rs_onDeleted r) = toString k" by simp
  next
    fix r r' assume "r \<in> C" "r' \<in> C" "rs_combat_id r = rs_combat_id r'"
    with cons show "r = r'" by (rule consistent_unique)
  next
    fix cid d assume "combats (manager ?w') cid = Some d"
    with mgr have "combats (manager w) cid = Some d" by (simp split: if_splits)
    from consistent_registered [OF cons this]
    show "cc_removeSelf d \<in> C" and "rs_combat_id (cc_removeSelf d) = cid" by simp_all
  next
    fix b
    from consistent_distinct [OF cons] arr show "distinct (arrays ?w' b)" by simp
  next
    fix b cid assume mem: "cid \<in> set (arrays ?w' b)"
    with gone [of b] have "cid \<noteq> ?id" by auto
    with consistent_listed [OF cons sub [OF mem]] mgr
    show "\<exists>d. combats (manager ?w') cid = Some d \<and> od_combats (rs_onDeleted (cc_removeSelf d)) = b"
      by simp
  qed
qed

lemma consistent_session:
  assumes cons: "consistent w C"
    and get: "CombatManager_get (manager w) combat_id = Some c"
    and same: "cc_removeSelf c' = cc_removeSelf c"
  shows "consistent (w\<lparr>manager := (manager w)\<lparr>combats := (combats (manager w))(combat_id \<mapsto> c')\<rparr>\<rparr>) C"
proof -
  from get have c: "combats (manager w) combat_id = Some c" by (simp add: CombatManager_get_def)
  show ?thesis unfolding consistent_def
  proof (intro conjI ballI allI impI)
    fix r assume "r \<in> C"
    from consistent_ids [OF cons this]
    show "\<exists>k < managedSoFar (manager (w\<lparr>manager := (manager w)\<lparr>combats := (combats (manager w))(combat_id \<mapsto> c')\<rparr>\<rparr>)).
        rs_combat_id r = toString k \<and> od_combatId (rs_onDeleted r) = toString k" by simp
  next
    fix r r' assume "r \<in> C" "r' \<in> C" "rs_combat_id r = rs_combat_id r'"
    with cons show "r = r'" by (rule consistent_unique)
  next
    fix cid d
    assume reg: "combats (manager (w\<lparr>manager := (manager w)\<lparr>combats := (combats (manager w))(combat_id \<mapsto> c')\<rparr>\<rparr>)) cid = Some d"
    have "cc_removeSelf d \<in> C \<and> rs_combat_id (cc_removeSelf d) = cid"
    proof (cases "cid = combat_id")
      case True
      with reg have "d = c'" by simp
      with same True consistent_registered [OF cons c] show ?thesis by simp
    next
      case False
      with reg have "combats (manager w) cid = Some d" by simp
      from consistent_registered [OF cons this] show ?thesis .
    qed
    then show "cc_removeSelf d \<in> C" and "rs_combat_id (cc_removeSelf d) = cid" by simp_all
  next
    fix b
    from consistent_distinct [OF cons]
    show "distinct (arrays (w\<lparr>manager := (manager w)\<lparr>combats := (combats (manager w))(combat_id \<mapsto> c')\<rparr>\<rparr>) b)"
      by simp
  next
    fix b cid
    assume "cid \<in> set (arrays (w\<lparr>manager := (manager w)\<lparr>combats := (combats (manager w))(combat_id \<mapsto> c')\<rparr>\<rparr>) b)"
    then have "cid \<in> set (arrays w b)" by simp
    from consistent_listed [OF cons this] obtain d
      where d: "combats (manager w) cid = Some d" "od_combats (rs_onDeleted (cc_removeSelf d)) = b"
      by blast
    show "\<exists>d. combats (manager (w\<lparr>manager := (manager w)\<lparr>combats := (combats (manager w))(combat_id \<mapsto> c')\<rparr>\<rparr>)) cid = Some d
        \<and> od_combats (rs_onDeleted (cc_removeSelf d)) = b"
    proof (cases "cid = combat_id")
      case True
      with d c same show ?thesis by simp
    next
      case False
      with d show ?thesis by simp
    qed
  qed
qed

lemma reach_consistent: "reach w C \<Longrightarrow> consistent w C"
proof (induction rule: reach.induct)
  case reach_init
  show ?case by (rule consistent_init)
next
  case (reach_create w C lobby_id nickname preset gm_id players combatId w' c)
  then show ?case by (blast intro: consistent_create)
next
  case (reach_remove w C rs)
  then show ?case by (blast intro: consistent_remove)
next
  case (reach_session w C combat_id c c')
  then show ?case by (blast intro: consistent_session)
qed

lemma reach_registered_callback:
  assumes "reach w C" and "CombatManager_get (manager w) combat_id = Some c"
  shows "cc_removeSelf c \<in> C \<and> rs_combat_id (cc_removeSelf c) = combat_id"
  using consistent_registered [OF reach_consistent [OF assms(1)], of combat_id c] assms(2)
  by (simp add: CombatManager_get_def)




section \<open>The concrete world\<close>

lemma example_world_eq:
  "example_world =
     \<lparr>manager = \<lparr>combats = [''0'' \<mapsto> new_CombatConnection ''Boss Fight'' () example_callback ''gm1'' [''p1'', ''p2'']],
                  managedSoFar = 1\<rparr>,
      managingCombats = [''lobby1'' \<mapsto> 0],
      arrays = (\<lambda>a. [])(0 := [''0'']),
      nextArray = 1\<rparr>"
proof -
  have entry: "managingCombats (ensure_list ''lobby1'' (init_world :: unit world)) ''lobby1'' = Some 0"
    by (simp add: ensure_list_def init_world_def)
  show ?thesis
    unfolding example_world_def LobbyService_createCombat_eq [OF entry]
    by (simp add: ensure_list_def init_world_def new_CombatManager_def toString_0
        example_callback_def increment_below [OF counter_limit_pos])
qed

lemma example_world_step:
  "LobbyService_createCombat ''lobby1'' ''Boss Fight'' () ''gm1'' [''p1'', ''p2'']
     (init_world :: unit world) = (Some ''0'', example_world)"
proof -
  have entry: "managingCombats (ensure_list ''lobby1'' (init_world :: unit world)) ''lobby1'' = Some 0"
    by (simp add: ensure_list_def init_world_def)
  have "fst (LobbyService_createCombat ''lobby1'' ''Boss Fight'' () ''gm1'' [''p1'', ''p2'']
     (init_world :: unit world)) = Some ''0''"
    unfolding LobbyService_createCombat_eq [OF entry]
    by (simp add: init_world_def new_CombatManager_def toString_0)
  then show ?thesis by (simp add: example_world_def prod_eq_iff)
qed

lemma example_world_get:
  "CombatManager_get (manager example_world) ''0'' =
     Some (new_CombatConnection ''Boss Fight'' () example_callback ''gm1'' [''p1'', ''p2''])"
  by (simp add: example_world_eq CombatManager_get_def)



section \<open>The removal callback on the concrete world\<close>



section \<open>\<^verbatim>\<open>LobbyService.createCombat\<close> always returns an identifier\<close>

text \<open>
  C9. \<^verbatim>\<open>LobbyService.createCombat\<close> never returns null: in every world and for all
  arguments it returns the identifier that the registry's \<^verbatim>\<open>createCombat\<close> produced
  (the counter's numeral, whatever hook is passed), because the lobby's list exists by
  the time it is looked up; the registry then holds a session under that identifier.
\<close>

theorem createCombat_never_null:
  "fst (LobbyService_createCombat lobby_id nickname preset gm_id players w) \<noteq> None
   \<and> fst (LobbyService_createCombat lobby_id nickname preset gm_id players w) =
       Some (fst (CombatManager_createCombat nickname preset gm_id players hook (manager w)))
   \<and> CombatManager_get (manager (snd (LobbyService_createCombat lobby_id nickname preset gm_id players w)))
        (fst (CombatManager_createCombat nickname preset gm_id players hook (manager w))) \<noteq> None"
proof -
  obtain a where a: "managingCombats (ensure_list lobby_id w) lobby_id = Some a"
    using ensure_list_has_entry by blast
  have registry: "fst (CombatManager_createCombat nickname preset gm_id players hook (manager w)) =
      toString (managedSoFar (manager w))"
    by (simp add: CombatManager_createCombat_def Let_def)
  show ?thesis
    unfolding LobbyService_createCombat_eq [OF a] registry
    by (simp add: CombatManager_get_def)
qed

theorem createCombat_never_null_witness:
  "fst (LobbyService_createCombat ''lobby1'' ''Boss Fight'' () ''gm1'' [''p1'', ''p2'']
         (init_world :: unit world)) = Some ''0''
   \<and> fst (LobbyService_createCombat ''lobby1'' ''Boss Fight'' () ''gm1'' [''p1'', ''p2'']
         (init_world :: unit world)) \<noteq> None"
  using createCombat_never_null [of "''lobby1''" "''Boss Fight''" "()" "''gm1''"
      "[''p1'', ''p2'']" "init_world :: unit world"
      "\<lambda>i. \<lparr>od_combats = 0, od_combatId = i\<rparr>"]
  by (simp add: example_world_step)

section \<open>Socket admission\<close>

lemma manageSocket_reach:
  assumes "reach w C"
  shows "reach (snd (manageSocket verifyAccessToken sock combat_id userToken w)) C"
proof (cases "CombatManager_get (manager w) combat_id")
  case None
  with assms show ?thesis by (simp add: manageSocket_def)
next
  case (Some combat)
  show ?thesis
  proof (cases "verifyAccessToken userToken")
    case None
    with Some assms show ?thesis by (simp add: manageSocket_def)
  next
    case (Some user_id)
    note user = this
    show ?thesis
    proof (cases "isPlayerInCombat combat user_id")
      case True
      with \<open>CombatManager_get (manager w) combat_id = Some combat\<close> user assms
      show ?thesis by (simp add: manageSocket_def)
    next
      case False
      have "cc_removeSelf (handlePlayer combat user_id sock) = cc_removeSelf combat"
        by (simp add: handlePlayer_def)
      from reach_session [OF assms \<open>CombatManager_get (manager w) combat_id = Some combat\<close> this]
        False user \<open>CombatManager_get (manager w) combat_id = Some combat\<close>
      show ?thesis by (simp add: manageSocket_def)
    qed
  qed
qed

text \<open>
  C3, as stated, fails: an attempt with an invalid token whose session identifier
  resolves to no session is disconnected without any \<^verbatim>\<open>invalid_token\<close> signal, since
  the session is resolved before the token is looked at. Here the registry is empty.
\<close>

theorem invalid_token_unknown_session_counterexample:
  "no_valid_token ''bad'' = None
   \<and> fst (manageSocket no_valid_token 7 ''0'' ''bad'' (init_world :: unit world)) = [Disconnect 7]
   \<and> Emit 7 ''invalid_token'' \<notin>
        set (fst (manageSocket no_valid_token 7 ''0'' ''bad'' (init_world :: unit world)))"
  by (simp add: manageSocket_def no_valid_token_def CombatManager_get_def init_world_def
      new_CombatManager_def)

text \<open>
  C3, amended. For every admission attempt carrying an invalid access token: when the
  session identifier resolves to a registered session, the calls made are exactly the
  \<^verbatim>\<open>invalid_token\<close> signal on the connection followed by its disconnection; when it
  resolves to no session, the connection is only disconnected; in both cases
  \<^verbatim>\<open>handlePlayer\<close> is not called and the world is unchanged.
\<close>

theorem invalid_token_signalled_then_disconnected:
  assumes "verifyAccessToken userToken = None"
  shows "fst (manageSocket verifyAccessToken sock combat_id userToken w) =
           (if CombatManager_get (manager w) combat_id = None then [Disconnect sock]
            else [Emit sock ''invalid_token'', Disconnect sock])
       \<and> filter is_HandlePlayer (fst (manageSocket verifyAccessToken sock combat_id userToken w)) = []
       \<and> snd (manageSocket verifyAccessToken sock combat_id userToken w) = w"
  using assms by (cases "CombatManager_get (manager w) combat_id") (simp_all add: manageSocket_def)

theorem invalid_token_signalled_then_disconnected_witness:
  "no_valid_token ''bad'' = None
   \<and> CombatManager_get (manager example_world) ''0'' \<noteq> None
   \<and> fst (manageSocket no_valid_token 7 ''0'' ''bad'' example_world) =
        [Emit 7 ''invalid_token'', Disconnect 7]
   \<and> filter is_HandlePlayer (fst (manageSocket no_valid_token 7 ''0'' ''bad'' example_world)) = []
   \<and> snd (manageSocket no_valid_token 7 ''0'' ''bad'' example_world) = example_world"
  using invalid_token_signalled_then_disconnected [of no_valid_token "''bad''" 7 "''0''" example_world]
  by (simp add: no_valid_token_def example_world_get)

text \<open>
  C4. When the session identifier resolves, the token is valid and its player has no
  connection attached to that session, the attempt makes exactly one call,
  \<^verbatim>\<open>handlePlayer\<close> with the player and the connection, after which the session holds
  that connection for the player. A second attempt for the same player on the same
  session, made while the first is attached, is only disconnected: \<^verbatim>\<open>handlePlayer\<close>
  is not called and the world is unchanged, so the first connection stays attached.
\<close>

theorem second_admission_rejected:
  assumes "CombatManager_get (manager w) combat_id = Some combat"
    and "verifyAccessToken userToken = Some user_id"
    and "\<not> isPlayerInCombat combat user_id"
    and "verifyAccessToken laterToken = Some user_id"
  shows "fst (manageSocket verifyAccessToken sockA combat_id userToken w) =
           [HandlePlayer combat_id user_id sockA]
       \<and> CombatManager_get (manager (snd (manageSocket verifyAccessToken sockA combat_id userToken w)))
            combat_id = Some (handlePlayer combat user_id sockA)
       \<and> map_of (cc_connections (handlePlayer combat user_id sockA)) user_id = Some sockA
       \<and> isPlayerInCombat (handlePlayer combat user_id sockA) user_id
       \<and> manageSocket verifyAccessToken sockB combat_id laterToken
            (snd (manageSocket verifyAccessToken sockA combat_id userToken w)) =
          ([Disconnect sockB], snd (manageSocket verifyAccessToken sockA combat_id userToken w))"
proof -
  let ?w1 = "snd (manageSocket verifyAccessToken sockA combat_id userToken w)"
  have attached: "map_of (cc_connections (handlePlayer combat user_id sockA)) user_id = Some sockA"
    by (simp add: handlePlayer_def update_conv')
  then have connected: "isPlayerInCombat (handlePlayer combat user_id sockA) user_id"
    by (simp add: isPlayerInCombat_def)
  from assms have first: "manageSocket verifyAccessToken sockA combat_id userToken w =
      ([HandlePlayer combat_id user_id sockA],
       w\<lparr>manager := (manager w)\<lparr>combats := (combats (manager w))(combat_id \<mapsto>
            handlePlayer combat user_id sockA)\<rparr>\<rparr>)"
    by (simp add: manageSocket_def)
  then have get1: "CombatManager_get (manager ?w1) combat_id = Some (handlePlayer combat user_id sockA)"
    by (simp add: CombatManager_get_def)
  from get1 connected assms(4)
  have second: "manageSocket verifyAccessToken sockB combat_id laterToken ?w1 = ([Disconnect sockB], ?w1)"
    by (simp add: manageSocket_def)
  from first get1 attached connected second show ?thesis by simp
qed

theorem second_admission_rejected_witness:
  "CombatManager_get (manager example_world) ''0'' =
       Some (new_CombatConnection ''Boss Fight'' () example_callback ''gm1'' [''p1'', ''p2''])
   \<and> token_of_p1 ''token-p1'' = Some ''p1''
   \<and> \<not> isPlayerInCombat (new_CombatConnection ''Boss Fight'' () example_callback ''gm1'' [''p1'', ''p2'']) ''p1''
   \<and> fst (manageSocket token_of_p1 7 ''0'' ''token-p1'' example_world) = [HandlePlayer ''0'' ''p1'' 7]
   \<and> manageSocket token_of_p1 8 ''0'' ''token-p1''
        (snd (manageSocket token_of_p1 7 ''0'' ''token-p1'' example_world))
      = ([Disconnect 8], snd (manageSocket token_of_p1 7 ''0'' ''token-p1'' example_world))"
proof -
  have fresh: "\<not> isPlayerInCombat (new_CombatConnection ''Boss Fight'' () example_callback ''gm1'' [''p1'', ''p2'']) ''p1''"
    by (simp add: isPlayerInCombat_def new_CombatConnection_def)
  have valid: "token_of_p1 ''token-p1'' = Some ''p1''" by (simp add: token_of_p1_def)
  from second_admission_rejected [where verifyAccessToken = token_of_p1
      and userToken = "''token-p1''" and laterToken = "''token-p1''" and sockA = 7 and sockB = 8,
      OF example_world_get valid fresh valid]
    example_world_get valid fresh
  show ?thesis by simp
qed

section \<open>Storage lookups\<close>

text \<open>
  C8, as stated, fails: for an identifier that is not a well-formed ObjectId the lookup
  throws instead of returning null. Here the store is empty, so the document is absent.
\<close>

theorem getUser_malformed_id_counterexample:
  "getUser (empty_Database :: unit Database) ''abc'' = Inl BSONError
   \<and> getUser (empty_Database :: unit Database) ''abc'' \<noteq> Inr None"
  by (simp add: getUser_def new_ObjectId_def empty_Database_def)

text \<open>
  C8, amended. For every identifier that is a well-formed ObjectId string (24
  hexadecimal digits), \<^verbatim>\<open>getLobby\<close>, \<^verbatim>\<open>getUser\<close>, \<^verbatim>\<open>getCharacter\<close> and
  \<^verbatim>\<open>getCombatPreset\<close> return what the store holds under it, which is null for an
  absent document, and do not throw; \<^verbatim>\<open>getLobby\<close> also returns null for the empty
  identifier.
\<close>

theorem lookups_return_null_for_absent:
  assumes "new_ObjectId ident = Inr oid"
  shows "getLobby db ident = Inr (lobbies db oid)
       \<and> getUser db ident = Inr (users db oid)
       \<and> getCharacter db ident = Inr (characters db oid)
       \<and> getCombatPreset db ident = Inr (combat_presets db oid)
       \<and> getLobby db [] = Inr None"
proof -
  from assms have "ident \<noteq> []" by (auto simp: new_ObjectId_def split: if_splits)
  with assms show ?thesis
    by (simp add: getLobby_def getUser_def getCharacter_def getCombatPreset_def)
qed

lemma example_oid:
  "new_ObjectId ''0123456789abcdef01234567'' = Inr (ObjectId ''0123456789abcdef01234567'')"
  by (simp add: new_ObjectId_def is_hex_digit_def lower_hex_def)

theorem lookups_return_null_for_absent_witness:
  "new_ObjectId ''0123456789abcdef01234567'' = Inr (ObjectId ''0123456789abcdef01234567'')
   \<and> getLobby (empty_Database :: unit Database) ''0123456789abcdef01234567'' = Inr None
   \<and> getUser (empty_Database :: unit Database) ''0123456789abcdef01234567'' = Inr None
   \<and> getCharacter (empty_Database :: unit Database) ''0123456789abcdef01234567'' = Inr None
   \<and> getCombatPreset (empty_Database :: unit Database) ''0123456789abcdef01234567'' = Inr None
   \<and> getLobby (empty_Database :: unit Database) [] = Inr None"
  using lookups_return_null_for_absent [OF example_oid, of "empty_Database :: unit Database"]
    example_oid
  by (simp add: empty_Database_def)

section \<open>Cooking\<close>

lemma js_set_proto: "js_set obj ''__proto__'' v = obj"
  by (simp add: js_set_def)

lemma js_set_key: "key \<noteq> ''__proto__'' \<Longrightarrow> js_set obj key v = obj(key \<mapsto> v)"
  by (simp add: js_set_def)

lemma cook_field_pawns_dangling:
  "dangling getEntity (map (\<lambda>p. (pawn_source p, pawn_path p)) pawns) \<Longrightarrow>
   cook_field_pawns getEntity pawns result = Inl (NotFound ''Entity not found'')"
proof (induction pawns arbitrary: result)
  case Nil
  then show ?case by (simp add: dangling_def)
next
  case (Cons pawn rest)
  show ?case
  proof (cases "pawn_source pawn = Embedded \<and> getEntity (pawn_path pawn) = None")
    case True
    then show ?thesis by (simp add: Let_def)
  next
    case False
    with Cons.prems have "dangling getEntity (map (\<lambda>p. (pawn_source p, pawn_path p)) rest)"
      by (auto simp: dangling_def)
    from Cons.IH [OF this] False show ?thesis
      by (auto simp: Let_def split: option.split)
  qed
qed

lemma cook_field_pawns_resolved:
  "\<not> dangling getEntity (map (\<lambda>p. (pawn_source p, pawn_path p)) pawns) \<Longrightarrow>
   \<exists>seed. cook_field_pawns getEntity pawns result = Inr seed"
proof (induction pawns arbitrary: result)
  case Nil
  show ?case by simp
next
  case (Cons pawn rest)
  from Cons.prems
  have rest_ok: "\<not> dangling getEntity (map (\<lambda>p. (pawn_source p, pawn_path p)) rest)"
    and head_ok: "pawn_source pawn = Embedded \<longrightarrow> getEntity (pawn_path pawn) \<noteq> None"
    by (auto simp: dangling_def)
  show ?case
  proof (cases "pawn_source pawn = Embedded")
    case False
    with Cons.IH [OF rest_ok] show ?thesis by (simp add: Let_def)
  next
    case True
    with head_ok obtain customEntity where "getEntity (pawn_path pawn) = Some customEntity"
      by auto
    with True Cons.IH [OF rest_ok] show ?thesis by (simp add: Let_def)
  qed
qed

lemma cook_entries_dangling:
  "dangling getEntity (map (\<lambda>e. (req_source (snd e), req_path (snd e))) entries) \<Longrightarrow>
   cook_entries getEntity entries result = Inl (NotFound ''Entity not found'')"
proof (induction entries arbitrary: result)
  case Nil
  then show ?case by (simp add: dangling_def)
next
  case (Cons entry rest)
  obtain square pawn where entry: "entry = (square, pawn)" by (cases entry)
  show ?case
  proof (cases "req_source pawn = Embedded \<and> getEntity (req_path pawn) = None")
    case True
    with entry show ?thesis by (simp add: Let_def)
  next
    case False
    with Cons.prems entry
    have "dangling getEntity (map (\<lambda>e. (req_source (snd e), req_path (snd e))) rest)"
      by (auto simp: dangling_def)
    from Cons.IH [OF this] False entry show ?thesis
      by (auto simp: Let_def split: option.split)
  qed
qed

lemma cook_entries_resolved:
  "\<not> dangling getEntity (map (\<lambda>e. (req_source (snd e), req_path (snd e))) entries) \<Longrightarrow>
   \<exists>seed. cook_entries getEntity entries result = Inr seed"
proof (induction entries arbitrary: result)
  case Nil
  show ?case by simp
next
  case (Cons entry rest)
  obtain square pawn where entry: "entry = (square, pawn)" by (cases entry)
  from Cons.prems entry
  have rest_ok: "\<not> dangling getEntity (map (\<lambda>e. (req_source (snd e), req_path (snd e))) rest)"
    and head_ok: "req_source pawn = Embedded \<longrightarrow> getEntity (req_path pawn) \<noteq> None"
    by (auto simp: dangling_def)
  show ?case
  proof (cases "req_source pawn = Embedded")
    case False
    with Cons.IH [OF rest_ok] entry show ?thesis by (simp add: Let_def)
  next
    case True
    with head_ok obtain customEntity where "getEntity (req_path pawn) = Some customEntity"
      by auto
    with True Cons.IH [OF rest_ok] entry show ?thesis by (simp add: Let_def)
  qed
qed

lemma check_occupiedSquares_duplicate:
  "\<not> distinct (occupiedSquares @ map pawn_square fld) \<Longrightarrow> distinct occupiedSquares \<Longrightarrow>
   check_occupiedSquares occupiedSquares fld = Inl (BadRequest ''Multiple pawns on the same square'')"
proof (induction fld arbitrary: occupiedSquares)
  case Nil
  then show ?case by simp
next
  case (Cons pawn rest)
  show ?case
  proof (cases "pawn_square pawn \<in> set occupiedSquares")
    case True
    then show ?thesis by simp
  next
    case False
    with Cons.prems have "\<not> distinct ((occupiedSquares @ [pawn_square pawn]) @ map pawn_square rest)"
      and "distinct (occupiedSquares @ [pawn_square pawn])" by auto
    from Cons.IH [OF this] False show ?thesis by simp
  qed
qed

section \<open>Cooking: duplicate squares and missing entities\<close>

text \<open>
  C2, as stated, fails: cooking a stored preset whose two pawns both claim square A1
  does not fail; it returns a seed in which the pawn listed last holds the square.
\<close>

theorem cook_stacked_preset_counterexample:
  "\<not> distinct (map pawn_square stacked_field)
   \<and> getCombatPreset stacked_db ''0123456789abcdef01234567'' = Inr (Some \<lparr>preset_field = stacked_field\<rparr>)
   \<and> cookPresetFromDB no_entities stacked_db ''0123456789abcdef01234567'' =
       Inr (Some \<lparr>field_pawns = [''A1'' \<mapsto>
                      \<lparr>entity_preset = \<lparr>ep_source = Dlc, ep_name = ''orc''\<rparr>,
                       owner = \<lparr>control_type = GameLogic, control_id = None\<rparr>\<rparr>],
                   custom_entities = Map.empty\<rparr>)"
  by (simp add: cookPresetFromDB_def getCombatPreset_def example_oid stacked_db_def
      stacked_field_def empty_Database_def empty_GamePreset_def Let_def js_set_def)

text \<open>
  C2, amended. A preset in which two or more pawns claim the same square is rejected
  with a ClientFault (\<^verbatim>\<open>BadRequest\<close>) when it is stored by
  \<^verbatim>\<open>createNewCombatPreset\<close>, whatever the save would have done, so nothing is saved.
  Cooking does not look at shared squares: in the importable mode (for a preset found in
  storage) and in the requested mode alike, it fails with NotFound and without a seed
  when an embedded pawn's entity is missing, and returns a seed otherwise, whether or not
  pawns share a square.
\<close>

theorem duplicate_squares_rejected_at_creation:
  "(\<not> distinct (map pawn_square fld) \<longrightarrow>
      createNewCombatPreset saveDocument fld db =
        Inl (BadRequest ''Multiple pawns on the same square''))
   \<and> (getCombatPreset db combatPreset = Inr (Some presetFromDB) \<longrightarrow>
      (if dangling getEntity (map (\<lambda>p. (pawn_source p, pawn_path p)) (preset_field presetFromDB))
       then cookPresetFromDB getEntity db combatPreset = Inl (NotFound ''Entity not found'')
       else \<exists>seed. cookPresetFromDB getEntity db combatPreset = Inr (Some seed)))
   \<and> (if dangling getEntity (map (\<lambda>e. (req_source (snd e), req_path (snd e))) entries)
       then cookPresetFromRequest getEntity entries = Inl (NotFound ''Entity not found'')
       else \<exists>seed. cookPresetFromRequest getEntity entries = Inr seed)"
proof (intro conjI impI)
  assume "\<not> distinct (map pawn_square fld)"
  then have "\<not> distinct ([] @ map pawn_square fld)" by simp
  from check_occupiedSquares_duplicate [OF this]
  show "createNewCombatPreset saveDocument fld db =
      Inl (BadRequest ''Multiple pawns on the same square'')"
    by (simp add: createNewCombatPreset_def)
next
  assume found: "getCombatPreset db combatPreset = Inr (Some presetFromDB)"
  let ?refs = "map (\<lambda>p. (pawn_source p, pawn_path p)) (preset_field presetFromDB)"
  show "if dangling getEntity ?refs
      then cookPresetFromDB getEntity db combatPreset = Inl (NotFound ''Entity not found'')
      else \<exists>seed. cookPresetFromDB getEntity db combatPreset = Inr (Some seed)"
  proof (cases "dangling getEntity ?refs")
    case True
    from cook_field_pawns_dangling [OF this] found True show ?thesis
      by (simp add: cookPresetFromDB_def)
  next
    case False
    from cook_field_pawns_resolved [OF this, of empty_GamePreset] obtain seed
      where "cook_field_pawns getEntity (preset_field presetFromDB) empty_GamePreset = Inr seed"
      by blast
    with found False show ?thesis by (simp add: cookPresetFromDB_def)
  qed
next
  let ?refs = "map (\<lambda>e. (req_source (snd e), req_path (snd e))) entries"
  show "if dangling getEntity ?refs
      then cookPresetFromRequest getEntity entries = Inl (NotFound ''Entity not found'')
      else \<exists>seed. cookPresetFromRequest getEntity entries = Inr seed"
  proof (cases "dangling getEntity ?refs")
    case True
    from cook_entries_dangling [OF this] True show ?thesis
      by (simp add: cookPresetFromRequest_def)
  next
    case False
    from cook_entries_resolved [OF this, of empty_GamePreset] False show ?thesis
      by (simp add: cookPresetFromRequest_def)
  qed
qed

theorem duplicate_squares_rejected_at_creation_witness:
  "\<not> distinct (map pawn_square stacked_field)
   \<and> createNewCombatPreset store_first stacked_field stacked_db =
        Inl (BadRequest ''Multiple pawns on the same square'')
   \<and> getCombatPreset stacked_db ''0123456789abcdef01234567'' = Inr (Some \<lparr>preset_field = stacked_field\<rparr>)
   \<and> \<not> dangling no_entities (map (\<lambda>p. (pawn_source p, pawn_path p)) stacked_field)
   \<and> (\<exists>seed. cookPresetFromDB no_entities stacked_db ''0123456789abcdef01234567'' = Inr (Some seed))
   \<and> dangling no_entities (map (\<lambda>e. (req_source (snd e), req_path (snd e))) goblin_request)
   \<and> cookPresetFromRequest no_entities goblin_request = Inl (NotFound ''Entity not found'')"
proof -
  have dup: "\<not> distinct (map pawn_square stacked_field)" by (simp add: stacked_field_def)
  have found: "getCombatPreset stacked_db ''0123456789abcdef01234567'' =
      Inr (Some \<lparr>preset_field = stacked_field\<rparr>)"
    by (simp add: getCombatPreset_def example_oid stacked_db_def empty_Database_def)
  have resolved: "\<not> dangling no_entities (map (\<lambda>p. (pawn_source p, pawn_path p)) stacked_field)"
    by (simp add: dangling_def stacked_field_def)
  have missing: "dangling no_entities (map (\<lambda>e. (req_source (snd e), req_path (snd e))) goblin_request)"
    by (simp add: dangling_def goblin_request_def no_entities_def)
  from duplicate_squares_rejected_at_creation
    [where fld = stacked_field and saveDocument = store_first and db = stacked_db
      and combatPreset = "''0123456789abcdef01234567''"
      and presetFromDB = "\<lparr>preset_field = stacked_field\<rparr>"
      and getEntity = no_entities and entries = goblin_request]
    dup found resolved missing
  show ?thesis by simp
qed

text \<open>
  C5. Whenever some pawn of the preset being cooked has source \<^verbatim>\<open>embedded\<close> and its
  referenced entity definition is absent from storage, cooking fails with the NotFound
  error \<^verbatim>\<open>Entity not found\<close>, returned to the caller in place of a seed: in the
  importable mode for the preset found in storage, and in the requested mode for the
  payload's entries.
\<close>

theorem missing_embedded_entity_not_found:
  assumes "getEntity missing_path = None"
  shows "(getCombatPreset db combatPreset = Inr (Some presetFromDB)
          \<and> pawn \<in> set (preset_field presetFromDB)
          \<and> pawn_source pawn = Embedded \<and> pawn_path pawn = missing_path
          \<longrightarrow> cookPresetFromDB getEntity db combatPreset = Inl (NotFound ''Entity not found''))
       \<and> ((square, requested) \<in> set entries
          \<and> req_source requested = Embedded \<and> req_path requested = missing_path
          \<longrightarrow> cookPresetFromRequest getEntity entries = Inl (NotFound ''Entity not found''))"
proof (intro conjI impI)
  assume h: "getCombatPreset db combatPreset = Inr (Some presetFromDB)
      \<and> pawn \<in> set (preset_field presetFromDB)
      \<and> pawn_source pawn = Embedded \<and> pawn_path pawn = missing_path"
  with assms have "dangling getEntity
      (map (\<lambda>p. (pawn_source p, pawn_path p)) (preset_field presetFromDB))"
    by (auto simp: dangling_def list_ex_iff)
  from cook_field_pawns_dangling [OF this] h
  show "cookPresetFromDB getEntity db combatPreset = Inl (NotFound ''Entity not found'')"
    by (simp add: cookPresetFromDB_def)
next
  assume h: "(square, requested) \<in> set entries
      \<and> req_source requested = Embedded \<and> req_path requested = missing_path"
  with assms have "dangling getEntity
      (map (\<lambda>e. (req_source (snd e), req_path (snd e))) entries)"
    by (force simp: dangling_def list_ex_iff)
  from cook_entries_dangling [OF this]
  show "cookPresetFromRequest getEntity entries = Inl (NotFound ''Entity not found'')"
    by (simp add: cookPresetFromRequest_def)
qed

theorem missing_embedded_entity_not_found_witness:
  "no_entities ''goblin'' = None
   \<and> getCombatPreset goblin_db ''0123456789abcdef01234567'' = Inr (Some \<lparr>preset_field = goblin_field\<rparr>)
   \<and> hd goblin_field \<in> set (preset_field \<lparr>preset_field = goblin_field\<rparr>)
   \<and> pawn_source (hd goblin_field) = Embedded \<and> pawn_path (hd goblin_field) = ''goblin''
   \<and> cookPresetFromDB no_entities goblin_db ''0123456789abcdef01234567'' =
        Inl (NotFound ''Entity not found'')
   \<and> hd goblin_request \<in> set goblin_request
   \<and> req_source (snd (hd goblin_request)) = Embedded
   \<and> req_path (snd (hd goblin_request)) = ''goblin''
   \<and> cookPresetFromRequest no_entities goblin_request = Inl (NotFound ''Entity not found'')"
proof -
  have absent: "no_entities ''goblin'' = None" by (simp add: no_entities_def)
  have found: "getCombatPreset goblin_db ''0123456789abcdef01234567'' =
      Inr (Some \<lparr>preset_field = goblin_field\<rparr>)"
    by (simp add: getCombatPreset_def example_oid goblin_db_def empty_Database_def)
  have stored: "hd goblin_field \<in> set (preset_field \<lparr>preset_field = goblin_field\<rparr>)
      \<and> pawn_source (hd goblin_field) = Embedded \<and> pawn_path (hd goblin_field) = ''goblin''"
    by (simp add: goblin_field_def)
  have sent: "(fst (hd goblin_request), snd (hd goblin_request)) \<in> set goblin_request
      \<and> req_source (snd (hd goblin_request)) = Embedded
      \<and> req_path (snd (hd goblin_request)) = ''goblin''"
    by (simp add: goblin_request_def)
  from missing_embedded_entity_not_found
    [where getEntity = no_entities and missing_path = "''goblin''" and db = goblin_db
      and combatPreset = "''0123456789abcdef01234567''"
      and presetFromDB = "\<lparr>preset_field = goblin_field\<rparr>" and pawn = "hd goblin_field"
      and square = "fst (hd goblin_request)" and requested = "snd (hd goblin_request)"
      and entries = goblin_request, OF absent]
    absent found stored sent
  show ?thesis by simp
qed

section \<open>The lobby-info aggregation enumerates indices\<close>

lemma two_lobbies_world_eq:
  "two_lobbies_world =
     \<lparr>manager =
        \<lparr>combats =
           [''0'' \<mapsto> new_CombatConnection ''Fight A'' ()
                     \<lparr>rs_combat_id = ''0'', rs_onDeleted = \<lparr>od_combats = 0, od_combatId = ''0''\<rparr>\<rparr>
                     ''gmA'' [],
            ''1'' \<mapsto> new_CombatConnection ''Fight B'' ()
                     \<lparr>rs_combat_id = ''1'', rs_onDeleted = \<lparr>od_combats = 1, od_combatId = ''1''\<rparr>\<rparr>
                     ''gmB'' []],
         managedSoFar = 2\<rparr>,
      managingCombats = [lobby_A \<mapsto> 0, lobby_B \<mapsto> 1],
      arrays = (\<lambda>a. [])(0 := [''0''], 1 := [''1'']),
      nextArray = 2\<rparr>"
proof -
  have entry_A: "managingCombats (ensure_list lobby_A (init_world :: unit world)) lobby_A = Some 0"
    by (simp add: ensure_list_def init_world_def)
  have first: "snd (LobbyService_createCombat lobby_A ''Fight A'' () ''gmA'' [] (init_world :: unit world)) =
     \<lparr>manager =
        \<lparr>combats =
           [''0'' \<mapsto> new_CombatConnection ''Fight A'' ()
                     \<lparr>rs_combat_id = ''0'', rs_onDeleted = \<lparr>od_combats = 0, od_combatId = ''0''\<rparr>\<rparr>
                     ''gmA'' []],
         managedSoFar = 1\<rparr>,
      managingCombats = [lobby_A \<mapsto> 0],
      arrays = (\<lambda>a. [])(0 := [''0'']),
      nextArray = 1\<rparr>"
    unfolding LobbyService_createCombat_eq [OF entry_A]
    by (simp add: ensure_list_def init_world_def new_CombatManager_def toString_0
        increment_below [OF counter_limit_pos])
  have differ: "lobby_B \<noteq> lobby_A" by (simp add: lobby_A_def lobby_B_def)
  have entry_B: "managingCombats (ensure_list lobby_B
      (snd (LobbyService_createCombat lobby_A ''Fight A'' () ''gmA'' [] (init_world :: unit world))))
      lobby_B = Some 1"
    unfolding first using differ by (simp add: ensure_list_def)
  show ?thesis
    unfolding two_lobbies_world_def LobbyService_createCombat_eq [OF entry_B]
    unfolding first using differ
    by (simp add: ensure_list_def toString_Suc_0 increment_below [OF counter_limit_gt_one])
qed

text \<open>
  C7 at a concrete input. Lobby A created a combat (identifier 0) and then lobby B
  created one (identifier 1). Lobby B's list holds exactly the live session 1, yet the
  aggregation for lobby B reports session 0, which belongs to lobby A, and has no entry
  for session 1: the loop looks up the index 0 of the list instead of its element.
\<close>

theorem lobby_info_reports_index_not_session:
  "getActiveCombats two_lobbies_world lobby_B = [''1'']
   \<and> CombatManager_get (manager two_lobbies_world) ''1'' \<noteq> None
   \<and> getActiveCombats two_lobbies_world lobby_A = [''0'']
   \<and> getLobbyInfo_combats two_lobbies_db two_lobbies_world lobby_B =
        Inr [\<lparr>info_nickname = ''Fight A'', info_isActive = False, info_roundCount = 0,
              info_id = ''0'', info_activePlayers = []\<rparr>]"
proof -
  have differ: "lobby_B \<noteq> lobby_A" by (simp add: lobby_A_def lobby_B_def)
  have oid: "new_ObjectId lobby_B = Inr (ObjectId lobby_B)"
    by (simp add: new_ObjectId_def lobby_B_def is_hex_digit_def lower_hex_def)
  have nonempty: "lobby_B \<noteq> []" by (simp add: lobby_B_def)
  have lobby: "getLobby two_lobbies_db lobby_B =
      Inr (Some \<lparr>lobby_name = ''Lobby B'', lobby_createdAt = 0, lobby_gm_id = ''gmB'',
           lobby_players = [], lobby_relatedPresets = []\<rparr>)"
    using nonempty by (simp add: getLobby_def oid two_lobbies_db_def empty_Database_def)
  have keys: "for_in_keys [''1''] = [''0'']"
    by (simp add: for_in_keys_def toString_0)
  have list_B: "getActiveCombats two_lobbies_world lobby_B = [''1'']"
    using differ by (simp add: two_lobbies_world_eq getActiveCombats_def)
  have list_A: "getActiveCombats two_lobbies_world lobby_A = [''0'']"
    using differ by (simp add: two_lobbies_world_eq getActiveCombats_def)
  have live: "CombatManager_get (manager two_lobbies_world) ''1'' \<noteq> None"
    by (simp add: two_lobbies_world_eq CombatManager_get_def)
  have info: "getLobbyInfo_combats two_lobbies_db two_lobbies_world lobby_B =
        Inr [\<lparr>info_nickname = ''Fight A'', info_isActive = False, info_roundCount = 0,
              info_id = ''0'', info_activePlayers = []\<rparr>]"
    unfolding getLobbyInfo_combats_def lobby
    using differ
    by (simp add: two_lobbies_world_eq keys CombatManager_get_def new_CombatConnection_def
        getPlayersInCombat_def isActive_def)
  from list_B live list_A info show ?thesis by simp
qed

end
